theory Spec2Isabelle
  imports Main "HOL-Library.Word" "HOL-Library.Monad_Syntax"
begin

unbundle bit_operations_syntax

section \<open>The track buffer of arecordmidi.c\<close>

text \<open>
  The recorder keeps the body of its single track in a linked list of buffers of
  \<open>BUFFER_SIZE\<close> bytes each. \<open>struct smf_track\<close> holds the byte count \<open>size\<close>, the fill
  level \<open>cur_buf_size\<close> of the node \<open>cur_buf\<close> points to, the tick of the last event and the
  last status byte. The node \<open>cur_buf\<close> points to is always the last node of the list
  (\<open>add_byte\<close> is the only function that links a node, and it moves \<open>cur_buf\<close> to it), so
  the list is modelled as the arrays of the nodes before \<open>cur_buf\<close>, in list order,
  followed by the array of \<open>cur_buf\<close> itself. An array is a list of \<open>BUFFER_SIZE\<close> bytes
  written by index. The C \<open>int\<close> fields are integers; the statements below say where the
  32-bit range matters. The unsigned 32-bit tick is a word, so its subtraction wraps.
\<close>

type_synonym u8 = "8 word"
type_synonym u32 = "32 word"

definition BUFFER_SIZE :: nat where
  "BUFFER_SIZE = 4088"

record smf_track =
  size_trk :: int
  cur_buf_size :: int
  prev_bufs :: "u8 list list"
  cur_buf :: "u8 list"
  last_tick :: u32
  last_command :: u8

text \<open>
  \<open>static struct smf_track track = { }\<close> followed by \<open>init_tracks\<close>: every field is zero
  and \<open>cur_buf\<close> points to the zero-filled \<open>first_buf\<close>.
\<close>

definition init_tracks :: smf_track where
  "init_tracks =
     \<lparr>size_trk = 0, cur_buf_size = 0, prev_bufs = [],
      cur_buf = replicate BUFFER_SIZE 0, last_tick = 0, last_command = 0\<rparr>"

text \<open>
  \<open>add_byte\<close>. When the current buffer is full a new zero-filled node is obtained from
  \<open>calloc\<close>; the program exits through \<open>fatal\<close> when \<open>calloc\<close> returns \<open>NULL\<close>. The
  environment is the predicate \<open>calloc_ok\<close>: \<open>calloc_ok n\<close> tells whether the allocation
  of the node that follows \<open>n\<close> earlier nodes succeeds. \<open>None\<close> is the exit of the process.
\<close>

definition add_byte :: "(nat \<Rightarrow> bool) \<Rightarrow> smf_track \<Rightarrow> u8 \<Rightarrow> smf_track option" where
  "add_byte calloc_ok t byte = do {
     t \<leftarrow> (if cur_buf_size t \<ge> int BUFFER_SIZE
          then (if calloc_ok (length (prev_bufs t))
                then Some (t\<lparr>prev_bufs := prev_bufs t @ [cur_buf t],
                             cur_buf := replicate BUFFER_SIZE 0,
                             cur_buf_size := 0\<rparr>)
                else None)
          else Some t);
     Some (t\<lparr>cur_buf := (cur_buf t)[nat (cur_buf_size t) := byte],
             cur_buf_size := cur_buf_size t + 1,
             size_trk := size_trk t + 1\<rparr>)
   }"

text \<open>The loops of the callers that append a run of bytes one by one.\<close>

fun add_bytes :: "(nat \<Rightarrow> bool) \<Rightarrow> smf_track \<Rightarrow> u8 list \<Rightarrow> smf_track option" where
  "add_bytes calloc_ok t [] = Some t"
| "add_bytes calloc_ok t (b # bs) = do { t \<leftarrow> add_byte calloc_ok t b; add_bytes calloc_ok t bs }"

text \<open>\<open>var_value\<close>: the variable-length quantity of a C \<open>int\<close>, appended to the track.\<close>

definition var_value :: "(nat \<Rightarrow> bool) \<Rightarrow> smf_track \<Rightarrow> int \<Rightarrow> smf_track option" where
  "var_value calloc_ok t v = do {
     t \<leftarrow> (if v \<ge> 2 ^ 28
          then add_byte calloc_ok t (word_of_int (0x80 OR (drop_bit 28 v AND 0x03)))
          else Some t);
     t \<leftarrow> (if v \<ge> 2 ^ 21
          then add_byte calloc_ok t (word_of_int (0x80 OR (drop_bit 21 v AND 0x7f)))
          else Some t);
     t \<leftarrow> (if v \<ge> 2 ^ 14
          then add_byte calloc_ok t (word_of_int (0x80 OR (drop_bit 14 v AND 0x7f)))
          else Some t);
     t \<leftarrow> (if v \<ge> 2 ^ 7
          then add_byte calloc_ok t (word_of_int (0x80 OR (drop_bit 7 v AND 0x7f)))
          else Some t);
     add_byte calloc_ok t (word_of_int (v AND 0x7f))
   }"

text \<open>
  What \<open>flush_buffer\<close> writes to the file: \<open>BUFFER_SIZE\<close> bytes of every node before
  \<open>cur_buf\<close> and the first \<open>cur_buf_size\<close> bytes of \<open>cur_buf\<close>.
\<close>

definition track_bytes :: "smf_track \<Rightarrow> u8 list" where
  "track_bytes t =
     concat (map (take BUFFER_SIZE) (prev_bufs t)) @ take (nat (cur_buf_size t)) (cur_buf t)"

text \<open>
  The representation invariant of the buffer: every array has \<open>BUFFER_SIZE\<close> cells, the
  fill level of the current one is within the array, and \<open>size\<close> counts \<open>BUFFER_SIZE\<close>
  bytes for every node before \<open>cur_buf\<close> plus the fill level of \<open>cur_buf\<close>.
\<close>

definition track_inv :: "smf_track \<Rightarrow> bool" where
  "track_inv t \<longleftrightarrow>
     0 \<le> cur_buf_size t \<and> cur_buf_size t \<le> int BUFFER_SIZE \<and>
     length (cur_buf t) = BUFFER_SIZE \<and>
     list_all (\<lambda>b. length b = BUFFER_SIZE) (prev_bufs t) \<and>
     size_trk t = int BUFFER_SIZE * int (length (prev_bufs t)) + cur_buf_size t"

text \<open>
  The emission ladder of the variable-length quantity as a list of bytes, rung by rung
  as the specification words it.
\<close>

definition vlq_bytes :: "int \<Rightarrow> u8 list" where
  "vlq_bytes v =
     (if v \<ge> 2 ^ 28 then [word_of_int (0x80 OR (drop_bit 28 v AND 0x03))] else []) @
     (if v \<ge> 2 ^ 21 then [word_of_int (0x80 OR (drop_bit 21 v AND 0x7f))] else []) @
     (if v \<ge> 2 ^ 14 then [word_of_int (0x80 OR (drop_bit 14 v AND 0x7f))] else []) @
     (if v \<ge> 2 ^ 7 then [word_of_int (0x80 OR (drop_bit 7 v AND 0x7f))] else []) @
     [word_of_int (v AND 0x7f)]"

text \<open>
  \<open>holds t bs lt lc\<close>: the track is well formed, its buffered bytes are \<open>bs\<close>, and the
  tracker fields are \<open>lt\<close> and \<open>lc\<close>.
\<close>

definition holds :: "smf_track \<Rightarrow> u8 list \<Rightarrow> u32 \<Rightarrow> u8 \<Rightarrow> bool" where
  "holds t bs lt lc \<longleftrightarrow>
     track_inv t \<and> track_bytes t = bs \<and> last_tick t = lt \<and> last_command t = lc"

definition never_fails :: "(nat \<Rightarrow> bool) \<Rightarrow> bool" where
  "never_fails calloc_ok \<longleftrightarrow> (\<forall>n. calloc_ok n)"

section \<open>Delta times and running status\<close>

text \<open>
  The events come from the ALSA sequencer, whose headers are not part of the repository.
  Of \<open>snd_seq_event_t\<close> the recorder reads the queue, the flag that the time stamp is in
  ticks (\<open>snd_seq_ev_is_tick\<close>), the tick, the destination port, the type and the member
  of the data union that belongs to the type. Type and data are one datatype here:
  \<open>data.note\<close> has the fields channel, note and velocity (unsigned char), \<open>data.control\<close>
  has channel (unsigned char), param (unsigned int) and value (signed int), and
  \<open>data.ext\<close> is a pointer to \<open>len\<close> bytes, modelled as the list of these bytes. The
  signed \<open>value\<close> is an integer: the source only reads its low 14 bits, which are the same
  with and without 32-bit wrap-around. \<open>SND_SEQ_EVENT_OTHER\<close> stands for every type the
  \<open>switch\<close> sends to \<open>default\<close>.
\<close>

datatype ev_data =
    SND_SEQ_EVENT_NOTEON u8 u8 u8
  | SND_SEQ_EVENT_NOTEOFF u8 u8 u8
  | SND_SEQ_EVENT_KEYPRESS u8 u8 u8
  | SND_SEQ_EVENT_CONTROLLER u8 u32 int
  | SND_SEQ_EVENT_PGMCHANGE u8 u32 int
  | SND_SEQ_EVENT_CHANPRESS u8 u32 int
  | SND_SEQ_EVENT_PITCHBEND u8 u32 int
  | SND_SEQ_EVENT_CONTROL14 u8 u32 int
  | SND_SEQ_EVENT_NONREGPARAM u8 u32 int
  | SND_SEQ_EVENT_REGPARAM u8 u32 int
  | SND_SEQ_EVENT_SYSEX "u8 list"
  | SND_SEQ_EVENT_OTHER

record snd_seq_event =
  queue_ev :: u8
  is_tick :: bool
  time_tick :: u32
  dest_port :: u8
  data_ev :: ev_data

text \<open>
  Modelled from the spec: the status nibbles of the channel messages, which the source
  takes from the macros \<open>MIDI_CMD_*\<close> of the ALSA headers; the table of section 4.4 of
  the specification gives their values.
\<close>

definition MIDI_CMD_NOTE_OFF :: u8 where "MIDI_CMD_NOTE_OFF = 0x80"
definition MIDI_CMD_NOTE_ON :: u8 where "MIDI_CMD_NOTE_ON = 0x90"
definition MIDI_CMD_NOTE_PRESSURE :: u8 where "MIDI_CMD_NOTE_PRESSURE = 0xA0"
definition MIDI_CMD_CONTROL :: u8 where "MIDI_CMD_CONTROL = 0xB0"
definition MIDI_CMD_PGM_CHANGE :: u8 where "MIDI_CMD_PGM_CHANGE = 0xC0"
definition MIDI_CMD_CHANNEL_PRESSURE :: u8 where "MIDI_CMD_CHANNEL_PRESSURE = 0xD0"
definition MIDI_CMD_BENDER :: u8 where "MIDI_CMD_BENDER = 0xE0"

text \<open>
  The controller numbers \<open>MIDI_CTL_*\<close> of the parameter messages come from the ALSA
  headers too, and the specification does not give their values: they are a parameter
  of the translation. \<open>alsa_midi_ctl\<close> holds the values of the MIDI standard, for the
  examples.
\<close>

record midi_ctl =
  MIDI_CTL_MSB_DATA_ENTRY :: u8
  MIDI_CTL_LSB_DATA_ENTRY :: u8
  MIDI_CTL_NONREG_PARM_NUM_LSB :: u8
  MIDI_CTL_NONREG_PARM_NUM_MSB :: u8
  MIDI_CTL_REGIST_PARM_NUM_LSB :: u8
  MIDI_CTL_REGIST_PARM_NUM_MSB :: u8

definition alsa_midi_ctl :: midi_ctl where
  "alsa_midi_ctl =
     \<lparr>MIDI_CTL_MSB_DATA_ENTRY = 0x06, MIDI_CTL_LSB_DATA_ENTRY = 0x26,
      MIDI_CTL_NONREG_PARM_NUM_LSB = 0x62, MIDI_CTL_NONREG_PARM_NUM_MSB = 0x63,
      MIDI_CTL_REGIST_PARM_NUM_LSB = 0x64, MIDI_CTL_REGIST_PARM_NUM_MSB = 0x65\<rparr>"

text \<open>
  \<open>delta_time\<close>. The global \<open>t_start\<close> is the argument \<open>ts\<close>. Both subtractions are
  unsigned and wrap; the second result is converted to \<open>int\<close>, which reads the 32 bits
  as two's complement.
\<close>

definition delta_time ::
  "(nat \<Rightarrow> bool) \<Rightarrow> u32 \<Rightarrow> smf_track \<Rightarrow> snd_seq_event \<Rightarrow> smf_track option" where
  "delta_time calloc_ok ts t ev =
     (let tick = time_tick ev - ts;
          diff = sint (tick - last_tick t);
          diff = (if diff < 0 then 0 else diff)
      in do {
        t \<leftarrow> var_value calloc_ok t diff;
        Some (t\<lparr>last_tick := tick\<rparr>)
      })"

text \<open>The value \<open>delta_time\<close> hands to \<open>var_value\<close>, for origin, last tick and event tick.\<close>

definition delta_diff :: "u32 \<Rightarrow> u32 \<Rightarrow> u32 \<Rightarrow> int" where
  "delta_diff ts lt etick =
     (let tick = etick - ts; diff = sint (tick - lt) in if diff < 0 then 0 else diff)"

text \<open>\<open>command\<close>: the status byte, unless running status makes it redundant.\<close>

definition command :: "(nat \<Rightarrow> bool) \<Rightarrow> smf_track \<Rightarrow> u8 \<Rightarrow> smf_track option" where
  "command calloc_ok t cmd = do {
     t \<leftarrow> (if cmd \<noteq> last_command t then add_byte calloc_ok t cmd else Some t);
     Some (t\<lparr>last_command := (if cmd < 0xf0 then cmd else 0)\<rparr>)
   }"

section \<open>The output file\<close>

text \<open>
  The \<open>FILE\<close> the recorder writes is a byte array with a position. \<open>fputc\<close> converts its
  \<open>int\<close> argument to \<open>unsigned char\<close> and stores it at the position, which overwrites
  inside the file and extends it at its end. The source checks no result of \<open>fputc\<close>,
  \<open>fwrite\<close>, \<open>ftell\<close> and \<open>fseek\<close>, and the model has no failure of them.
\<close>

record stream =
  contents :: "u8 list"
  pos :: nat

definition put_byte :: "stream \<Rightarrow> u8 \<Rightarrow> stream" where
  "put_byte f b =
     f\<lparr>contents :=
         (if pos f < length (contents f) then (contents f)[pos f := b]
          else contents f @ replicate (pos f - length (contents f)) 0 @ [b]),
       pos := pos f + 1\<rparr>"

definition fputc :: "stream \<Rightarrow> int \<Rightarrow> stream" where
  "fputc f c = put_byte f (word_of_int c)"

definition fwrite :: "stream \<Rightarrow> u8 list \<Rightarrow> stream" where
  "fwrite f bs = foldl put_byte f bs"

definition ftell :: "stream \<Rightarrow> nat" where
  "ftell f = pos f"

definition fseek :: "stream \<Rightarrow> nat \<Rightarrow> stream" where
  "fseek f off = f\<lparr>pos := off\<rparr>"

section \<open>The globals and the translation of an event\<close>

record globals =
  track :: smf_track
  t_start :: u32
  queue :: int
  smpte_timing :: int
  beats :: int
  frames :: int
  ticks :: int
  ts_num :: int
  ts_dd :: int
  file_out :: stream
  size_offset :: nat

text \<open>
  The \<open>switch\<close> of \<open>record_event\<close> on the type of the event, for the track and the time
  origin it is given. The payload of a system exclusive event is copied by the loop
  \<open>add_bytes\<close>; its length \<open>ext.len\<close> is an \<open>unsigned int\<close> passed as \<open>int\<close>, the same
  number for every payload shorter than \<open>2 ^ 31\<close> bytes.
\<close>

definition record_event_switch ::
  "(nat \<Rightarrow> bool) \<Rightarrow> midi_ctl \<Rightarrow> u32 \<Rightarrow> smf_track \<Rightarrow> snd_seq_event \<Rightarrow> smf_track option" where
  "record_event_switch calloc_ok K ts t ev =
     (case data_ev ev of
        SND_SEQ_EVENT_NOTEON channel note velocity \<Rightarrow> do {
          t \<leftarrow> delta_time calloc_ok ts t ev;
          t \<leftarrow> command calloc_ok t (MIDI_CMD_NOTE_ON OR (channel AND 0xf));
          t \<leftarrow> add_byte calloc_ok t (note AND 0x7f);
          add_byte calloc_ok t (velocity AND 0x7f)
        }
      | SND_SEQ_EVENT_NOTEOFF channel note velocity \<Rightarrow> do {
          t \<leftarrow> delta_time calloc_ok ts t ev;
          t \<leftarrow> command calloc_ok t (MIDI_CMD_NOTE_OFF OR (channel AND 0xf));
          t \<leftarrow> add_byte calloc_ok t (note AND 0x7f);
          add_byte calloc_ok t (velocity AND 0x7f)
        }
      | SND_SEQ_EVENT_KEYPRESS channel note velocity \<Rightarrow> do {
          t \<leftarrow> delta_time calloc_ok ts t ev;
          t \<leftarrow> command calloc_ok t (MIDI_CMD_NOTE_PRESSURE OR (channel AND 0xf));
          t \<leftarrow> add_byte calloc_ok t (note AND 0x7f);
          add_byte calloc_ok t (velocity AND 0x7f)
        }
      | SND_SEQ_EVENT_CONTROLLER channel param val \<Rightarrow> do {
          t \<leftarrow> delta_time calloc_ok ts t ev;
          t \<leftarrow> command calloc_ok t (MIDI_CMD_CONTROL OR (channel AND 0xf));
          t \<leftarrow> add_byte calloc_ok t (ucast (param AND 0x7f));
          add_byte calloc_ok t (word_of_int (val AND 0x7f))
        }
      | SND_SEQ_EVENT_PGMCHANGE channel param val \<Rightarrow> do {
          t \<leftarrow> delta_time calloc_ok ts t ev;
          t \<leftarrow> command calloc_ok t (MIDI_CMD_PGM_CHANGE OR (channel AND 0xf));
          add_byte calloc_ok t (word_of_int (val AND 0x7f))
        }
      | SND_SEQ_EVENT_CHANPRESS channel param val \<Rightarrow> do {
          t \<leftarrow> delta_time calloc_ok ts t ev;
          t \<leftarrow> command calloc_ok t (MIDI_CMD_CHANNEL_PRESSURE OR (channel AND 0xf));
          add_byte calloc_ok t (word_of_int (val AND 0x7f))
        }
      | SND_SEQ_EVENT_PITCHBEND channel param val \<Rightarrow> do {
          t \<leftarrow> delta_time calloc_ok ts t ev;
          t \<leftarrow> command calloc_ok t (MIDI_CMD_BENDER OR (channel AND 0xf));
          t \<leftarrow> add_byte calloc_ok t (word_of_int ((val + 8192) AND 0x7f));
          add_byte calloc_ok t (word_of_int (drop_bit 7 (val + 8192) AND 0x7f))
        }
      | SND_SEQ_EVENT_CONTROL14 channel param val \<Rightarrow> do {
          t \<leftarrow> delta_time calloc_ok ts t ev;
          t \<leftarrow> command calloc_ok t (MIDI_CMD_CONTROL OR (channel AND 0xf));
          t \<leftarrow> add_byte calloc_ok t (ucast (param AND 0x7f));
          t \<leftarrow> add_byte calloc_ok t (word_of_int (drop_bit 7 val AND 0x7f));
          (if param AND 0x7f < 0x20 then do {
             t \<leftarrow> delta_time calloc_ok ts t ev;
             t \<leftarrow> add_byte calloc_ok t (ucast ((param AND 0x7f) + 0x20));
             add_byte calloc_ok t (word_of_int (val AND 0x7f))
           } else Some t)
        }
      | SND_SEQ_EVENT_NONREGPARAM channel param val \<Rightarrow> do {
          t \<leftarrow> delta_time calloc_ok ts t ev;
          t \<leftarrow> command calloc_ok t (MIDI_CMD_CONTROL OR (channel AND 0xf));
          t \<leftarrow> add_byte calloc_ok t (MIDI_CTL_NONREG_PARM_NUM_LSB K);
          t \<leftarrow> add_byte calloc_ok t (ucast (param AND 0x7f));
          t \<leftarrow> delta_time calloc_ok ts t ev;
          t \<leftarrow> add_byte calloc_ok t (MIDI_CTL_NONREG_PARM_NUM_MSB K);
          t \<leftarrow> add_byte calloc_ok t (ucast (drop_bit 7 param AND 0x7f));
          t \<leftarrow> delta_time calloc_ok ts t ev;
          t \<leftarrow> add_byte calloc_ok t (MIDI_CTL_MSB_DATA_ENTRY K);
          t \<leftarrow> add_byte calloc_ok t (word_of_int (drop_bit 7 val AND 0x7f));
          t \<leftarrow> delta_time calloc_ok ts t ev;
          t \<leftarrow> add_byte calloc_ok t (MIDI_CTL_LSB_DATA_ENTRY K);
          add_byte calloc_ok t (word_of_int (val AND 0x7f))
        }
      | SND_SEQ_EVENT_REGPARAM channel param val \<Rightarrow> do {
          t \<leftarrow> delta_time calloc_ok ts t ev;
          t \<leftarrow> command calloc_ok t (MIDI_CMD_CONTROL OR (channel AND 0xf));
          t \<leftarrow> add_byte calloc_ok t (MIDI_CTL_REGIST_PARM_NUM_LSB K);
          t \<leftarrow> add_byte calloc_ok t (ucast (param AND 0x7f));
          t \<leftarrow> delta_time calloc_ok ts t ev;
          t \<leftarrow> add_byte calloc_ok t (MIDI_CTL_REGIST_PARM_NUM_MSB K);
          t \<leftarrow> add_byte calloc_ok t (ucast (drop_bit 7 param AND 0x7f));
          t \<leftarrow> delta_time calloc_ok ts t ev;
          t \<leftarrow> add_byte calloc_ok t (MIDI_CTL_MSB_DATA_ENTRY K);
          t \<leftarrow> add_byte calloc_ok t (word_of_int (drop_bit 7 val AND 0x7f));
          t \<leftarrow> delta_time calloc_ok ts t ev;
          t \<leftarrow> add_byte calloc_ok t (MIDI_CTL_LSB_DATA_ENTRY K);
          add_byte calloc_ok t (word_of_int (val AND 0x7f))
        }
      | SND_SEQ_EVENT_SYSEX ext \<Rightarrow>
          (case ext of
             [] \<Rightarrow> Some t
           | first # _ \<Rightarrow> do {
               t \<leftarrow> delta_time calloc_ok ts t ev;
               t \<leftarrow> (if first = 0xf0 then command calloc_ok t 0xf0
                    else command calloc_ok t 0xf7);
               t \<leftarrow> var_value calloc_ok t (int (length ext));
               add_bytes calloc_ok t ext
             })
      | SND_SEQ_EVENT_OTHER \<Rightarrow> Some t)"

text \<open>
  \<open>record_event\<close>: events of another queue or without a tick time stamp are dropped,
  then \<open>t_start\<close> is set when it is still 0, then events for another port are dropped,
  then the \<open>switch\<close> runs.
\<close>

definition record_event ::
  "(nat \<Rightarrow> bool) \<Rightarrow> midi_ctl \<Rightarrow> globals \<Rightarrow> snd_seq_event \<Rightarrow> globals option" where
  "record_event calloc_ok K g ev =
     (if uint (queue_ev ev) \<noteq> queue g \<or> \<not> is_tick ev then Some g
      else
        let g = (if t_start g = 0 then g\<lparr>t_start := time_tick ev\<rparr> else g) in
        if dest_port ev \<noteq> 0 then Some g
        else do {
          t \<leftarrow> record_event_switch calloc_ok K (t_start g) (track g) ev;
          Some (g\<lparr>track := t\<rparr>)
        })"

text \<open>The loop of \<open>main\<close> over the events the sequencer delivers until recording stops.\<close>

fun record_events ::
  "(nat \<Rightarrow> bool) \<Rightarrow> midi_ctl \<Rightarrow> globals \<Rightarrow> snd_seq_event list \<Rightarrow> globals option" where
  "record_events calloc_ok K g [] = Some g"
| "record_events calloc_ok K g (ev # evs) = do {
     g \<leftarrow> record_event calloc_ok K g ev;
     record_events calloc_ok K g evs
   }"

text \<open>
  An event passes the two filters of \<open>record_event\<close> for the queue \<open>q\<close>: it is stamped
  in ticks by this queue and addressed to port 0.
\<close>

definition accepted :: "int \<Rightarrow> snd_seq_event \<Rightarrow> bool" where
  "accepted q ev \<longleftrightarrow> uint (queue_ev ev) = q \<and> is_tick ev \<and> dest_port ev = 0"

text \<open>The time origin in force when \<open>record_event\<close> translates the event.\<close>

definition origin :: "globals \<Rightarrow> snd_seq_event \<Rightarrow> u32" where
  "origin g ev = (if t_start g = 0 then time_tick ev else t_start g)"

text \<open>
  The table of the translation, read off the \<open>switch\<close>: the status byte an event hands
  to \<open>command\<close>, and the bytes that follow the place of the status byte. A further
  controller message of the same event starts with the delta time 0 and has no status
  byte.
\<close>

fun ev_command :: "ev_data \<Rightarrow> u8 option" where
  "ev_command (SND_SEQ_EVENT_NOTEON c n v) = Some (MIDI_CMD_NOTE_ON OR (c AND 0xf))"
| "ev_command (SND_SEQ_EVENT_NOTEOFF c n v) = Some (MIDI_CMD_NOTE_OFF OR (c AND 0xf))"
| "ev_command (SND_SEQ_EVENT_KEYPRESS c n v) = Some (MIDI_CMD_NOTE_PRESSURE OR (c AND 0xf))"
| "ev_command (SND_SEQ_EVENT_CONTROLLER c p v) = Some (MIDI_CMD_CONTROL OR (c AND 0xf))"
| "ev_command (SND_SEQ_EVENT_PGMCHANGE c p v) = Some (MIDI_CMD_PGM_CHANGE OR (c AND 0xf))"
| "ev_command (SND_SEQ_EVENT_CHANPRESS c p v) = Some (MIDI_CMD_CHANNEL_PRESSURE OR (c AND 0xf))"
| "ev_command (SND_SEQ_EVENT_PITCHBEND c p v) = Some (MIDI_CMD_BENDER OR (c AND 0xf))"
| "ev_command (SND_SEQ_EVENT_CONTROL14 c p v) = Some (MIDI_CMD_CONTROL OR (c AND 0xf))"
| "ev_command (SND_SEQ_EVENT_NONREGPARAM c p v) = Some (MIDI_CMD_CONTROL OR (c AND 0xf))"
| "ev_command (SND_SEQ_EVENT_REGPARAM c p v) = Some (MIDI_CMD_CONTROL OR (c AND 0xf))"
| "ev_command (SND_SEQ_EVENT_SYSEX []) = None"
| "ev_command (SND_SEQ_EVENT_SYSEX (first # rest)) = Some (if first = 0xf0 then 0xf0 else 0xf7)"
| "ev_command SND_SEQ_EVENT_OTHER = None"

fun ev_data_bytes :: "midi_ctl \<Rightarrow> ev_data \<Rightarrow> u8 list" where
  "ev_data_bytes K (SND_SEQ_EVENT_NOTEON c n v) = [n AND 0x7f, v AND 0x7f]"
| "ev_data_bytes K (SND_SEQ_EVENT_NOTEOFF c n v) = [n AND 0x7f, v AND 0x7f]"
| "ev_data_bytes K (SND_SEQ_EVENT_KEYPRESS c n v) = [n AND 0x7f, v AND 0x7f]"
| "ev_data_bytes K (SND_SEQ_EVENT_CONTROLLER c p v) =
     [ucast (p AND 0x7f), word_of_int (v AND 0x7f)]"
| "ev_data_bytes K (SND_SEQ_EVENT_PGMCHANGE c p v) = [word_of_int (v AND 0x7f)]"
| "ev_data_bytes K (SND_SEQ_EVENT_CHANPRESS c p v) = [word_of_int (v AND 0x7f)]"
| "ev_data_bytes K (SND_SEQ_EVENT_PITCHBEND c p v) =
     [word_of_int ((v + 8192) AND 0x7f), word_of_int (drop_bit 7 (v + 8192) AND 0x7f)]"
| "ev_data_bytes K (SND_SEQ_EVENT_CONTROL14 c p v) =
     [ucast (p AND 0x7f), word_of_int (drop_bit 7 v AND 0x7f)] @
     (if p AND 0x7f < 0x20
      then [0x00, ucast ((p AND 0x7f) + 0x20), word_of_int (v AND 0x7f)] else [])"
| "ev_data_bytes K (SND_SEQ_EVENT_NONREGPARAM c p v) =
     [MIDI_CTL_NONREG_PARM_NUM_LSB K, ucast (p AND 0x7f),
      0x00, MIDI_CTL_NONREG_PARM_NUM_MSB K, ucast (drop_bit 7 p AND 0x7f),
      0x00, MIDI_CTL_MSB_DATA_ENTRY K, word_of_int (drop_bit 7 v AND 0x7f),
      0x00, MIDI_CTL_LSB_DATA_ENTRY K, word_of_int (v AND 0x7f)]"
| "ev_data_bytes K (SND_SEQ_EVENT_REGPARAM c p v) =
     [MIDI_CTL_REGIST_PARM_NUM_LSB K, ucast (p AND 0x7f),
      0x00, MIDI_CTL_REGIST_PARM_NUM_MSB K, ucast (drop_bit 7 p AND 0x7f),
      0x00, MIDI_CTL_MSB_DATA_ENTRY K, word_of_int (drop_bit 7 v AND 0x7f),
      0x00, MIDI_CTL_LSB_DATA_ENTRY K, word_of_int (v AND 0x7f)]"
| "ev_data_bytes K (SND_SEQ_EVENT_SYSEX ext) =
     (if ext = [] then [] else vlq_bytes (int (length ext)) @ ext)"
| "ev_data_bytes K SND_SEQ_EVENT_OTHER = []"

text \<open>
  The bytes of one translated event, for the last status byte \<open>lc\<close> and the delta
  time \<open>d\<close>, and the tracker fields after it.
\<close>

definition ev_bytes :: "midi_ctl \<Rightarrow> u8 \<Rightarrow> int \<Rightarrow> ev_data \<Rightarrow> u8 list" where
  "ev_bytes K lc d dat =
     (case ev_command dat of
        None \<Rightarrow> []
      | Some c \<Rightarrow> vlq_bytes d @ (if c \<noteq> lc then [c] else []) @ ev_data_bytes K dat)"

definition ev_last_command :: "u8 \<Rightarrow> ev_data \<Rightarrow> u8" where
  "ev_last_command lc dat =
     (case ev_command dat of None \<Rightarrow> lc | Some c \<Rightarrow> if c < 0xf0 then c else 0)"

definition ev_last_tick :: "u32 \<Rightarrow> u32 \<Rightarrow> snd_seq_event \<Rightarrow> u32" where
  "ev_last_tick ts lt ev =
     (case ev_command (data_ev ev) of None \<Rightarrow> lt | Some c \<Rightarrow> time_tick ev - ts)"

section \<open>Writing the file\<close>

text \<open>
  \<open>write_header\<close>: the header chunk, the tag of the track chunk, and the four bytes of
  the track length, whose offset is remembered in \<open>size_offset\<close>.
\<close>

definition write_header :: "globals \<Rightarrow> globals" where
  "write_header g =
     (let f = fwrite (file_out g) [0x4D, 0x54, 0x68, 0x64, 0, 0, 0, 6];
          f = fputc f 0;
          f = fputc f 0;
          f = fputc f (drop_bit 8 1 AND 0xff);
          f = fputc f (1 AND 0xff);
          time_division = ticks g;
          time_division =
            (if smpte_timing g \<noteq> 0 then time_division OR push_bit 8 (0x100 - frames g)
             else time_division);
          f = fputc f (drop_bit 8 time_division);
          f = fputc f (time_division AND 0xff);
          f = fwrite f [0x4D, 0x54, 0x72, 0x6B];
          off = ftell f;
          f = fputc f (drop_bit 24 (size_trk (track g)) AND 0xff);
          f = fputc f (drop_bit 16 (size_trk (track g)) AND 0xff);
          f = fputc f (drop_bit 8 (size_trk (track g)) AND 0xff);
          f = fputc f (size_trk (track g) AND 0xff)
      in g\<lparr>file_out := f, size_offset := off\<rparr>)"

text \<open>\<open>var_value_direct\<close>: the quantity written to the file, and the count of its bytes.\<close>

definition var_value_direct :: "stream \<Rightarrow> int \<Rightarrow> stream \<times> int" where
  "var_value_direct f v =
     (let extra_size = 0;
          (f, extra_size) =
            (if v \<ge> 2 ^ 28
             then (fputc f (0x80 OR (drop_bit 28 v AND 0x03)), extra_size + 1)
             else (f, extra_size));
          (f, extra_size) =
            (if v \<ge> 2 ^ 21
             then (fputc f (0x80 OR (drop_bit 21 v AND 0x7f)), extra_size + 1)
             else (f, extra_size));
          (f, extra_size) =
            (if v \<ge> 2 ^ 14
             then (fputc f (0x80 OR (drop_bit 14 v AND 0x7f)), extra_size + 1)
             else (f, extra_size));
          (f, extra_size) =
            (if v \<ge> 2 ^ 7
             then (fputc f (0x80 OR (drop_bit 7 v AND 0x7f)), extra_size + 1)
             else (f, extra_size));
          f = fputc f (v AND 0x7f);
          extra_size = extra_size + 1
      in (f, extra_size))"

text \<open>\<open>flush_buffer\<close>: every node of the list, the last one up to its fill level.\<close>

definition flush_buffer :: "globals \<Rightarrow> globals" where
  "flush_buffer g =
     (let f = foldl (\<lambda>f buf. fwrite f (take BUFFER_SIZE buf)) (file_out g)
                (prev_bufs (track g));
          f = fwrite f (take (nat (cur_buf_size (track g))) (cur_buf (track g)))
      in g\<lparr>file_out := f\<rparr>)"

text \<open>
  \<open>update_length\<close>: \<open>track.size\<close> grows by \<open>extra_size\<close> and is written, most significant
  byte first, at \<open>size_offset\<close>; the position is restored.
\<close>

definition update_length :: "globals \<Rightarrow> int \<Rightarrow> globals" where
  "update_length g extra_size =
     (let saved_pos = ftell (file_out g);
          f = fseek (file_out g) (size_offset g);
          sz = size_trk (track g) + extra_size;
          g = g\<lparr>track := (track g)\<lparr>size_trk := sz\<rparr>\<rparr>;
          f = fputc f (drop_bit 24 sz AND 0xff);
          f = fputc f (drop_bit 16 sz AND 0xff);
          f = fputc f (drop_bit 8 sz AND 0xff);
          f = fputc f (sz AND 0xff);
          f = fseek f saved_pos
      in g\<lparr>file_out := f\<rparr>)"

text \<open>
  \<open>write_track_end\<close>. The sequencer answers the status query with \<open>err\<close> and the tick
  of the queue; a negative \<open>err\<close> ends the program in \<open>check_snd\<close>. The tick is stored in
  an \<open>int\<close> and subtracted from the unsigned \<open>last_tick\<close>, which is an unsigned
  subtraction whose result is passed as \<open>int\<close>.
\<close>

definition write_track_end :: "globals \<Rightarrow> int \<Rightarrow> u32 \<Rightarrow> (globals \<times> int) option" where
  "write_track_end g err queue_tick =
     (if err < 0 then None
      else
        let tick = sint queue_tick;
            extra_size = 0;
            (f, n) = var_value_direct (file_out g)
                       (sint (word_of_int tick - last_tick (track g)));
            extra_size = extra_size + n;
            f = fputc f 0xff;
            f = fputc f 0x2f;
            extra_size = extra_size + 2;
            (f, n) = var_value_direct f 0;
            extra_size = extra_size + n
        in Some (g\<lparr>file_out := f\<rparr>, extra_size))"

text \<open>
  The block of \<open>main\<close> that records tempo and time signature. \<open>beats\<close> is between 4 and
  6000 after option parsing, so the C division is the division of integers.
\<close>

definition record_tempo :: "(nat \<Rightarrow> bool) \<Rightarrow> globals \<Rightarrow> globals option" where
  "record_tempo calloc_ok g =
     (let usecs_per_quarter = 60000000 div beats g in do {
        t \<leftarrow> var_value calloc_ok (track g) 0;
        t \<leftarrow> add_byte calloc_ok t 0xff;
        t \<leftarrow> add_byte calloc_ok t 0x51;
        t \<leftarrow> var_value calloc_ok t 3;
        t \<leftarrow> add_byte calloc_ok t (word_of_int (drop_bit 16 usecs_per_quarter));
        t \<leftarrow> add_byte calloc_ok t (word_of_int (drop_bit 8 usecs_per_quarter));
        t \<leftarrow> add_byte calloc_ok t (word_of_int usecs_per_quarter);
        t \<leftarrow> var_value calloc_ok t 0;
        t \<leftarrow> add_byte calloc_ok t 0xff;
        t \<leftarrow> add_byte calloc_ok t 0x58;
        t \<leftarrow> var_value calloc_ok t 4;
        t \<leftarrow> add_byte calloc_ok t (word_of_int (ts_num g));
        t \<leftarrow> add_byte calloc_ok t (word_of_int (ts_dd g));
        t \<leftarrow> add_byte calloc_ok t 24;
        t \<leftarrow> add_byte calloc_ok t 8;
        Some (g\<lparr>track := t\<rparr>)
      })"

text \<open>The bytes of that block: the tempo and the time signature meta events.\<close>

definition tempo_bytes :: "globals \<Rightarrow> u8 list" where
  "tempo_bytes g =
     [0x00, 0xff, 0x51, 0x03,
      word_of_int (drop_bit 16 (60000000 div beats g)),
      word_of_int (drop_bit 8 (60000000 div beats g)),
      word_of_int (60000000 div beats g),
      0x00, 0xff, 0x58, 0x04, word_of_int (ts_num g), word_of_int (ts_dd g), 24, 8]"

text \<open>
  \<open>main\<close> from \<open>init_tracks\<close> on, for the globals \<open>g\<close> that option parsing and the set-up
  of the sequencer leave (\<open>t_start\<close> still has its initial value 0 there, and the track
  is the zero-filled static one): the tempo block, \<open>fopen\<close> (whose failure ends the
  program),
  \<open>write_header\<close>, the events \<open>evs\<close> the sequencer delivers until the recording stops,
  \<open>flush_buffer\<close>, \<open>write_track_end\<close> and \<open>update_length\<close>.
\<close>

definition main_body ::
  "(nat \<Rightarrow> bool) \<Rightarrow> midi_ctl \<Rightarrow> globals \<Rightarrow> bool \<Rightarrow> snd_seq_event list \<Rightarrow> int \<Rightarrow> u32 \<Rightarrow>
   globals option" where
  "main_body calloc_ok K g fopen_ok evs err queue_tick = do {
     g \<leftarrow> Some (g\<lparr>track := init_tracks\<rparr>);
     g \<leftarrow> (if smpte_timing g = 0 then record_tempo calloc_ok g else Some g);
     g \<leftarrow> (if fopen_ok then Some (g\<lparr>file_out := \<lparr>contents = [], pos = 0\<rparr>\<rparr>) else None);
     g \<leftarrow> Some (write_header g);
     g \<leftarrow> record_events calloc_ok K g evs;
     g \<leftarrow> Some (flush_buffer g);
     (g, extra_size) \<leftarrow> write_track_end g err queue_tick;
     Some (update_length g extra_size)
   }"

text \<open>The number a run of bytes spells, most significant byte first.\<close>

definition be_value :: "u8 list \<Rightarrow> int" where
  "be_value bs = foldl (\<lambda>n b. n * 256 + uint b) 0 bs"

text \<open>The four bytes of the file at \<open>size_offset\<close>, read as the length of the track.\<close>

definition length_field :: "globals \<Rightarrow> int" where
  "length_field g = be_value (take 4 (drop (size_offset g) (contents (file_out g))))"

text \<open>The file ends where it is being written.\<close>

definition at_end :: "stream \<Rightarrow> bool" where
  "at_end f \<longleftrightarrow> pos f = length (contents f)"

section \<open>Inputs of the examples\<close>

text \<open>An allocator that never fails.\<close>

definition always_ok :: "nat \<Rightarrow> bool" where
  "always_ok n = True"

text \<open>
  The globals at the start of a recording with the default options, on queue 1, and an
  event of that queue for port 0.
\<close>

definition start_globals :: globals where
  "start_globals =
     \<lparr>track = init_tracks, t_start = 0, queue = 1, smpte_timing = 0, beats = 120,
      frames = 0, ticks = 384, ts_num = 4, ts_dd = 2,
      file_out = \<lparr>contents = [], pos = 0\<rparr>, size_offset = 0\<rparr>"

definition note_event :: "u32 \<Rightarrow> ev_data \<Rightarrow> snd_seq_event" where
  "note_event tk d = \<lparr>queue_ev = 1, is_tick = True, time_tick = tk, dest_port = 0, data_ev = d\<rparr>"

text \<open>The events of the examples: a note-on \<open>2 ^ 31\<close> ticks after the start,\<close>

definition far_event :: snd_seq_event where
  "far_event = note_event 0x80000000 (SND_SEQ_EVENT_NOTEON 0 60 100)"

text \<open>an event of a type the recorder does not translate, and an empty system exclusive,\<close>

definition other_event :: snd_seq_event where
  "other_event = note_event 100 SND_SEQ_EVENT_OTHER"

definition empty_sysex_event :: snd_seq_event where
  "empty_sysex_event = note_event 100 (SND_SEQ_EVENT_SYSEX [])"

text \<open>14-bit controller events for the parameters 7 and \<open>0x27\<close> with the value \<open>0x1234\<close>,\<close>

definition control14_event :: snd_seq_event where
  "control14_event = note_event 10 (SND_SEQ_EVENT_CONTROL14 0 7 4660)"

definition control14_high_event :: snd_seq_event where
  "control14_high_event = note_event 10 (SND_SEQ_EVENT_CONTROL14 0 0x27 4660)"

text \<open>three notes on channel 0 with a system exclusive message before the third,\<close>

definition note_on_event :: snd_seq_event where
  "note_on_event = note_event 10 (SND_SEQ_EVENT_NOTEON 0 60 100)"

definition second_note_event :: snd_seq_event where
  "second_note_event = note_event 110 (SND_SEQ_EVENT_NOTEON 0 64 90)"

definition sysex_event :: snd_seq_event where
  "sysex_event = note_event 210 (SND_SEQ_EVENT_SYSEX [0xF0, 0x7E, 0xF7])"

definition third_note_event :: snd_seq_event where
  "third_note_event = note_event 310 (SND_SEQ_EVENT_NOTEON 0 67 80)"

text \<open>and a note that starts at tick 0 and ends at tick 384.\<close>

definition zero_tick_event :: snd_seq_event where
  "zero_tick_event = note_event 0 (SND_SEQ_EVENT_NOTEON 0 60 100)"

definition note_off_event :: snd_seq_event where
  "note_off_event = note_event 384 (SND_SEQ_EVENT_NOTEOFF 0 60 0)"

section \<open>Appending to the buffer\<close>

lemma track_inv_init: "track_inv init_tracks"
  by (simp add: track_inv_def init_tracks_def)

lemma track_bytes_init: "track_bytes init_tracks = []"
  by (simp add: track_bytes_def init_tracks_def)

lemma holds_init: "holds init_tracks [] 0 0"
  by (simp add: holds_def track_inv_init track_bytes_init) (simp add: init_tracks_def)

lemma track_inv_size: "track_inv t \<Longrightarrow> size_trk t = int (length (track_bytes t))"
proof -
  assume inv: "track_inv t"
  have len: "length (concat (map (take BUFFER_SIZE) bs)) = BUFFER_SIZE * length bs"
    if "list_all (\<lambda>b. length b = BUFFER_SIZE) bs" for bs :: "u8 list list"
    using that by (induction bs) auto
  from inv have "list_all (\<lambda>b. length b = BUFFER_SIZE) (prev_bufs t)"
    by (simp add: track_inv_def)
  from len [OF this] inv show ?thesis
    by (auto simp: track_inv_def track_bytes_def)
qed

lemma add_byte_room:
  assumes "track_inv t" and "cur_buf_size t < int BUFFER_SIZE"
  shows "add_byte A t b =
         Some (t\<lparr>cur_buf := (cur_buf t)[nat (cur_buf_size t) := b],
                 cur_buf_size := cur_buf_size t + 1, size_trk := size_trk t + 1\<rparr>)"
  using assms by (simp add: add_byte_def)

lemma add_byte_full:
  assumes "track_inv t" and "cur_buf_size t = int BUFFER_SIZE" and "add_byte A t b = Some t'"
  shows "t' = t\<lparr>prev_bufs := prev_bufs t @ [cur_buf t],
               cur_buf := (replicate BUFFER_SIZE 0)[0 := b],
               cur_buf_size := 1, size_trk := size_trk t + 1\<rparr>"
  using assms by (auto simp: add_byte_def split: if_splits)

lemma add_byte_step:
  assumes inv: "track_inv t" and ok: "add_byte A t b = Some t'"
  shows "track_inv t' \<and> track_bytes t' = track_bytes t @ [b] \<and>
         size_trk t' = size_trk t + 1 \<and>
         last_tick t' = last_tick t \<and> last_command t' = last_command t"
proof (cases "cur_buf_size t < int BUFFER_SIZE")
  case True
  with inv ok have t': "t' = t\<lparr>cur_buf := (cur_buf t)[nat (cur_buf_size t) := b],
       cur_buf_size := cur_buf_size t + 1, size_trk := size_trk t + 1\<rparr>"
    by (simp add: add_byte_room)
  from inv True have n: "nat (cur_buf_size t) < length (cur_buf t)"
    by (auto simp: track_inv_def)
  from inv have "nat (cur_buf_size t + 1) = Suc (nat (cur_buf_size t))"
    by (simp add: track_inv_def nat_add_distrib)
  with n have "take (nat (cur_buf_size t + 1)) ((cur_buf t)[nat (cur_buf_size t) := b]) =
        take (nat (cur_buf_size t)) (cur_buf t) @ [b]"
    by (simp add: take_Suc_conv_app_nth)
  with inv True t' show ?thesis
    by (simp add: track_inv_def track_bytes_def)
next
  case False
  with inv have full: "cur_buf_size t = int BUFFER_SIZE"
    by (simp add: track_inv_def)
  have pos: "0 < BUFFER_SIZE"
    by (simp add: BUFFER_SIZE_def)
  then have one: "take (Suc 0) ((replicate BUFFER_SIZE (0::u8))[0 := b]) = [b]"
    by (simp add: take_Suc_conv_app_nth)
  from pos have le: "(1::int) \<le> int BUFFER_SIZE"
    by simp
  from add_byte_full [OF inv full ok] inv full one le show ?thesis
    by (simp add: track_inv_def track_bytes_def algebra_simps)
qed

lemma add_byte_None:
  "add_byte A t b = None \<longleftrightarrow> cur_buf_size t \<ge> int BUFFER_SIZE \<and> \<not> A (length (prev_bufs t))"
  by (simp add: add_byte_def)

lemma add_byte_total: "never_fails A \<Longrightarrow> add_byte A t b \<noteq> None"
  by (simp add: add_byte_None never_fails_def)

lemma add_byte_holds:
  "holds t bs lt lc \<Longrightarrow> add_byte A t b = Some t' \<Longrightarrow> holds t' (bs @ [b]) lt lc"
  using add_byte_step [of t A b t'] by (simp add: holds_def)

lemma bind_not_None:
  "m \<noteq> None \<Longrightarrow> (\<And>x. f x \<noteq> None) \<Longrightarrow> Option.bind m f \<noteq> None"
  by (cases m) simp_all

lemma add_bytes_holds:
  "holds t bs lt lc \<Longrightarrow> add_bytes A t xs = Some t' \<Longrightarrow> holds t' (bs @ xs) lt lc"
proof (induction xs arbitrary: t bs)
  case Nil
  then show ?case by simp
next
  case (Cons x xs)
  from Cons.prems(2) obtain t1 where
    s1: "add_byte A t x = Some t1" and s2: "add_bytes A t1 xs = Some t'"
    by (auto simp: bind_eq_Some_conv)
  from Cons.IH [OF add_byte_holds [OF Cons.prems(1) s1] s2] show ?case
    by simp
qed

lemma add_bytes_total: "never_fails A \<Longrightarrow> add_bytes A t xs \<noteq> None"
proof (induction xs arbitrary: t)
  case Nil
  show ?case by simp
next
  case (Cons x xs)
  have "Option.bind (add_byte A t x) (\<lambda>t. add_bytes A t xs) \<noteq> None"
    by (rule bind_not_None) (rule add_byte_total [OF Cons.prems], rule Cons.IH [OF Cons.prems])
  then show ?case by simp
qed

lemma var_value_holds:
  assumes h: "holds t bs lt lc" and ok: "var_value A t v = Some t'"
  shows "holds t' (bs @ vlq_bytes v) lt lc"
proof -
  let ?b4 = "word_of_int (0x80 OR (drop_bit 28 v AND 0x03)) :: u8"
  let ?b3 = "word_of_int (0x80 OR (drop_bit 21 v AND 0x7f)) :: u8"
  let ?b2 = "word_of_int (0x80 OR (drop_bit 14 v AND 0x7f)) :: u8"
  let ?b1 = "word_of_int (0x80 OR (drop_bit 7 v AND 0x7f)) :: u8"
  from ok obtain t4 t3 t2 t1 where
    s4: "(if v \<ge> 2 ^ 28 then add_byte A t ?b4 else Some t) = Some t4" and
    s3: "(if v \<ge> 2 ^ 21 then add_byte A t4 ?b3 else Some t4) = Some t3" and
    s2: "(if v \<ge> 2 ^ 14 then add_byte A t3 ?b2 else Some t3) = Some t2" and
    s1: "(if v \<ge> 2 ^ 7 then add_byte A t2 ?b1 else Some t2) = Some t1" and
    s0: "add_byte A t1 (word_of_int (v AND 0x7f)) = Some t'"
    unfolding var_value_def by (auto simp: bind_eq_Some_conv)
  from h s4 have h4: "holds t4 (bs @ (if v \<ge> 2 ^ 28 then [?b4] else [])) lt lc"
    by (auto split: if_splits dest: add_byte_holds)
  from h4 s3 have h3: "holds t3 (bs @ (if v \<ge> 2 ^ 28 then [?b4] else []) @
        (if v \<ge> 2 ^ 21 then [?b3] else [])) lt lc"
    by (auto split: if_splits dest: add_byte_holds)
  from h3 s2 have h2: "holds t2 (bs @ (if v \<ge> 2 ^ 28 then [?b4] else []) @
        (if v \<ge> 2 ^ 21 then [?b3] else []) @ (if v \<ge> 2 ^ 14 then [?b2] else [])) lt lc"
    by (auto split: if_splits dest: add_byte_holds)
  from h2 s1 have h1: "holds t1 (bs @ (if v \<ge> 2 ^ 28 then [?b4] else []) @
        (if v \<ge> 2 ^ 21 then [?b3] else []) @ (if v \<ge> 2 ^ 14 then [?b2] else []) @
        (if v \<ge> 2 ^ 7 then [?b1] else [])) lt lc"
    by (auto split: if_splits dest: add_byte_holds)
  from add_byte_holds [OF h1 s0] show ?thesis
    by (simp add: vlq_bytes_def)
qed

lemma if_add_byte_total:
  "never_fails A \<Longrightarrow> (if c then add_byte A t b else Some t) \<noteq> None"
  using add_byte_total [of A t b] by (cases c) simp_all

lemma var_value_total: "never_fails A \<Longrightarrow> var_value A t v \<noteq> None"
  unfolding var_value_def
  by (intro bind_not_None if_add_byte_total add_byte_total)

section \<open>The translation of one event\<close>

lemma holds_last_tick: "holds t bs lt lc \<Longrightarrow> holds (t\<lparr>last_tick := x\<rparr>) bs x lc"
  by (simp add: holds_def track_inv_def track_bytes_def)

lemma holds_last_command: "holds t bs lt lc \<Longrightarrow> holds (t\<lparr>last_command := x\<rparr>) bs lt x"
  by (simp add: holds_def track_inv_def track_bytes_def)

lemma delta_time_holds:
  assumes h: "holds t bs lt lc" and ok: "delta_time A ts t ev = Some t'"
  shows "holds t' (bs @ vlq_bytes (delta_diff ts lt (time_tick ev))) (time_tick ev - ts) lc"
proof -
  from h have lt: "last_tick t = lt"
    by (simp add: holds_def)
  from ok lt obtain t1 where
    s1: "var_value A t (delta_diff ts lt (time_tick ev)) = Some t1" and
    s2: "t' = t1\<lparr>last_tick := time_tick ev - ts\<rparr>"
    by (auto simp: delta_time_def delta_diff_def Let_def bind_eq_Some_conv)
  from holds_last_tick [OF var_value_holds [OF h s1]] s2 show ?thesis
    by simp
qed

lemma delta_time_total: "never_fails A \<Longrightarrow> delta_time A ts t ev \<noteq> None"
  unfolding delta_time_def Let_def
  by (rule bind_not_None) (simp_all add: var_value_total del: not_None_eq)

lemma command_holds:
  assumes h: "holds t bs lt lc" and ok: "command A t c = Some t'"
  shows "holds t' (bs @ (if c \<noteq> lc then [c] else [])) lt (if c < 0xf0 then c else 0)"
proof -
  from h have lc: "last_command t = lc"
    by (simp add: holds_def)
  from ok lc obtain t1 where
    s1: "(if c \<noteq> lc then add_byte A t c else Some t) = Some t1" and
    s2: "t' = t1\<lparr>last_command := (if c < 0xf0 then c else 0)\<rparr>"
    by (auto simp: command_def bind_eq_Some_conv)
  from h s1 have "holds t1 (bs @ (if c \<noteq> lc then [c] else [])) lt lc"
    by (auto split: if_splits dest: add_byte_holds)
  from holds_last_command [OF this] s2 show ?thesis
    by simp
qed

lemma command_total: "never_fails A \<Longrightarrow> command A t c \<noteq> None"
  unfolding command_def
  by (rule bind_not_None) (simp_all add: if_add_byte_total del: not_None_eq)

lemma delta_diff_same [simp]: "delta_diff ts (etick - ts) etick = 0"
  by (simp add: delta_diff_def)

lemma vlq_bytes_0 [simp]: "vlq_bytes 0 = [0]"
  by (simp add: vlq_bytes_def)

lemmas step_holds = delta_time_holds command_holds add_byte_holds var_value_holds add_bytes_holds

lemma switch_control14:
  "holds t bs lt lc \<Longrightarrow> record_event_switch A K ts t ev = Some t' \<Longrightarrow>
   data_ev ev = SND_SEQ_EVENT_CONTROL14 c p v \<Longrightarrow>
   holds t' (bs @ ev_bytes K lc (delta_diff ts lt (time_tick ev)) (data_ev ev))
     (ev_last_tick ts lt ev) (ev_last_command lc (data_ev ev))"
  by (cases "p AND 0x7f < 0x20";
      clarsimp simp: record_event_switch_def bind_eq_Some_conv;
      ((drule (1) step_holds)+)?;
      auto simp: ev_bytes_def ev_last_tick_def ev_last_command_def split: if_splits)

lemma switch_sysex:
  "holds t bs lt lc \<Longrightarrow> record_event_switch A K ts t ev = Some t' \<Longrightarrow>
   data_ev ev = SND_SEQ_EVENT_SYSEX ext \<Longrightarrow>
   holds t' (bs @ ev_bytes K lc (delta_diff ts lt (time_tick ev)) (data_ev ev))
     (ev_last_tick ts lt ev) (ev_last_command lc (data_ev ev))"
  by (cases ext; cases "hd ext = 0xf0";
      clarsimp simp: record_event_switch_def bind_eq_Some_conv simp del: add_bytes.simps;
      ((drule (1) step_holds)+)?;
      auto simp: ev_bytes_def ev_last_tick_def ev_last_command_def simp del: add_bytes.simps
        split: if_splits)

lemma switch_others:
  "holds t bs lt lc \<Longrightarrow> record_event_switch A K ts t ev = Some t' \<Longrightarrow>
   \<forall>c p v. data_ev ev \<noteq> SND_SEQ_EVENT_CONTROL14 c p v \<Longrightarrow>
   \<forall>ext. data_ev ev \<noteq> SND_SEQ_EVENT_SYSEX ext \<Longrightarrow>
   holds t' (bs @ ev_bytes K lc (delta_diff ts lt (time_tick ev)) (data_ev ev))
     (ev_last_tick ts lt ev) (ev_last_command lc (data_ev ev))"
  by (cases "data_ev ev";
      clarsimp simp: record_event_switch_def bind_eq_Some_conv;
      ((drule (1) step_holds)+)?;
      auto simp: ev_bytes_def ev_last_tick_def ev_last_command_def split: if_splits)

lemma record_event_switch_holds:
  assumes h: "holds t bs lt lc" and ok: "record_event_switch A K ts t ev = Some t'"
  shows "holds t' (bs @ ev_bytes K lc (delta_diff ts lt (time_tick ev)) (data_ev ev))
     (ev_last_tick ts lt ev) (ev_last_command lc (data_ev ev))"
proof -
  consider (c14) c p v where "data_ev ev = SND_SEQ_EVENT_CONTROL14 c p v"
    | (sysex) ext where "data_ev ev = SND_SEQ_EVENT_SYSEX ext"
    | (other) "\<forall>c p v. data_ev ev \<noteq> SND_SEQ_EVENT_CONTROL14 c p v"
        "\<forall>ext. data_ev ev \<noteq> SND_SEQ_EVENT_SYSEX ext"
    by blast
  then show ?thesis
  proof cases
    case c14
    from switch_control14 [OF h ok this] show ?thesis .
  next
    case sysex
    from switch_sysex [OF h ok this] show ?thesis .
  next
    case other
    from switch_others [OF h ok this] show ?thesis .
  qed
qed

lemma bind_SomeI:
  "\<exists>x. m = Some x \<Longrightarrow> (\<And>x. \<exists>y. f x = Some y) \<Longrightarrow> \<exists>y. Option.bind m f = Some y"
  by auto

lemmas step_total =
  delta_time_total command_total add_byte_total var_value_total add_bytes_total

lemmas step_SomeI = step_total [unfolded not_None_eq]

lemma record_event_switch_total:
  "never_fails A \<Longrightarrow> record_event_switch A K ts t ev \<noteq> None"
  unfolding record_event_switch_def
  by (cases "data_ev ev")
     (auto simp del: add_bytes.simps intro!: bind_SomeI step_SomeI split: list.splits)

lemma record_event_total:
  "never_fails A \<Longrightarrow> record_event A K g ev \<noteq> None"
  unfolding record_event_def Let_def
  by (auto intro!: bind_SomeI record_event_switch_total [unfolded not_None_eq])

lemma record_event_filtered:
  "\<not> accepted (queue g) ev \<Longrightarrow>
   \<exists>g'. record_event A K g ev = Some g' \<and> track g' = track g \<and> queue g' = queue g"
  by (auto simp: record_event_def accepted_def Let_def)

lemma record_event_accepted:
  "accepted (queue g) ev \<Longrightarrow>
   record_event A K g ev =
     map_option (\<lambda>t. g\<lparr>t_start := origin g ev, track := t\<rparr>)
       (record_event_switch A K (origin g ev) (track g) ev)"
  by (cases "record_event_switch A K (origin g ev) (track g) ev")
     (auto simp: record_event_def accepted_def Let_def origin_def)

lemma record_event_step:
  assumes tot: "never_fails A" and inv: "track_inv (track g)" and acc: "accepted (queue g) ev"
  shows "\<exists>t'. record_event A K g ev = Some (g\<lparr>t_start := origin g ev, track := t'\<rparr>) \<and>
           track_inv t' \<and>
           track_bytes t' =
             track_bytes (track g) @
             ev_bytes K (last_command (track g))
               (delta_diff (origin g ev) (last_tick (track g)) (time_tick ev)) (data_ev ev) \<and>
           last_tick t' = ev_last_tick (origin g ev) (last_tick (track g)) ev \<and>
           last_command t' = ev_last_command (last_command (track g)) (data_ev ev)"
proof -
  from record_event_switch_total [OF tot] obtain t' where
    ok: "record_event_switch A K (origin g ev) (track g) ev = Some t'"
    by blast
  from inv have "holds (track g) (track_bytes (track g)) (last_tick (track g))
      (last_command (track g))"
    by (simp add: holds_def)
  from record_event_switch_holds [OF this ok] record_event_accepted [OF acc, of A K] ok
  show ?thesis
    by (intro exI [of _ t']) (simp add: holds_def)
qed

section \<open>Facts for the examples\<close>

lemma never_fails_always_ok: "never_fails always_ok"
  by (simp add: never_fails_def always_ok_def)

lemma start_track [simp]:
  "track start_globals = init_tracks" "queue start_globals = 1" "t_start start_globals = 0"
  by (simp_all add: start_globals_def)

lemma init_tracker [simp]: "last_tick init_tracks = 0" "last_command init_tracks = 0"
  by (simp_all add: init_tracks_def)

lemma note_event_simps [simp]:
  "accepted 1 (note_event tk d)" "time_tick (note_event tk d) = tk"
  "data_ev (note_event tk d) = d"
  by (simp_all add: note_event_def accepted_def)

lemma origin_start [simp]: "origin start_globals (note_event tk d) = tk"
  by (simp add: origin_def)

lemma delta_100 [simp]:
  "delta_diff 10 0 10 = 0" "delta_diff 10 0 110 = 100" "delta_diff 10 100 210 = 100"
  "delta_diff 10 200 310 = 100"
  by (simp_all add: delta_diff_def)

lemma vlq_bytes_small [simp]: "vlq_bytes 100 = [0x64]" "vlq_bytes 3 = [0x03]"
  by (simp_all add: vlq_bytes_def)

lemma vlq_bytes_4 [simp]: "vlq_bytes 4 = [0x04]"
  by (simp add: vlq_bytes_def)

lemma vlq_bytes_384: "vlq_bytes 384 = [0x83, 0x00]"
  by (simp add: vlq_bytes_def)

section \<open>Variable-length quantities\<close>

lemma vlq_bytes_length:
  "1 \<le> length (vlq_bytes v) \<and> length (vlq_bytes v) \<le> 5 \<and>
   (v < 2 ^ 28 \<longrightarrow> length (vlq_bytes v) \<le> 4) \<and>
   (2 ^ 28 \<le> v \<longrightarrow> length (vlq_bytes v) = 5)"
  by (simp add: vlq_bytes_def)

lemma var_value_bytes:
  assumes "never_fails A" and "track_inv t"
  shows "\<exists>t'. var_value A t v = Some t' \<and> track_inv t' \<and>
           track_bytes t' = track_bytes t @ vlq_bytes v \<and>
           last_tick t' = last_tick t \<and> last_command t' = last_command t"
proof -
  from var_value_total [OF assms(1)] obtain t' where ok: "var_value A t v = Some t'"
    by blast
  from assms(2) have "holds t (track_bytes t) (last_tick t) (last_command t)"
    by (simp add: holds_def)
  from var_value_holds [OF this ok] ok show ?thesis
    by (simp add: holds_def)
qed

lemma vlq_bytes_at:
  "vlq_bytes 0 = [0x00]"
  "vlq_bytes 127 = [0x7F]"
  "vlq_bytes 128 = [0x81, 0x00]"
  "vlq_bytes 16383 = [0xFF, 0x7F]"
  "vlq_bytes 16384 = [0x81, 0x80, 0x00]"
  "vlq_bytes 2097151 = [0xFF, 0xFF, 0x7F]"
  "vlq_bytes 2097152 = [0x81, 0x80, 0x80, 0x00]"
  "vlq_bytes 268435455 = [0xFF, 0xFF, 0xFF, 0x7F]"
  "vlq_bytes 268435456 = [0x81, 0x80, 0x80, 0x80, 0x00]"
  by (simp_all add: vlq_bytes_def)

text \<open>
  Claim C2. At the boundary values 0, 127, 128, 16383, 16384, 2097151, 2097152 and
  268435455 \<open>var_value\<close> appends the canonical variable-length quantity, of 1, 1, 2, 2,
  3, 3, 4 and 4 bytes; and for every value below \<open>2 ^ 28\<close> it appends the bytes of the
  ladder: \<open>0x80 | ((v >> 21) & 0x7f)\<close> from \<open>2 ^ 21\<close> on, \<open>0x80 | ((v >> 14) & 0x7f)\<close> from
  \<open>2 ^ 14\<close> on, \<open>0x80 | ((v >> 7) & 0x7f)\<close> from \<open>2 ^ 7\<close> on, and always \<open>v & 0x7f\<close>.
\<close>

theorem var_value_boundaries:
  assumes "never_fails A" and "track_inv t"
  shows "map_option track_bytes (var_value A t 0) = Some (track_bytes t @ [0x00]) \<and>
         map_option track_bytes (var_value A t 127) = Some (track_bytes t @ [0x7F]) \<and>
         map_option track_bytes (var_value A t 128) = Some (track_bytes t @ [0x81, 0x00]) \<and>
         map_option track_bytes (var_value A t 16383) = Some (track_bytes t @ [0xFF, 0x7F]) \<and>
         map_option track_bytes (var_value A t 16384) =
           Some (track_bytes t @ [0x81, 0x80, 0x00]) \<and>
         map_option track_bytes (var_value A t 2097151) =
           Some (track_bytes t @ [0xFF, 0xFF, 0x7F]) \<and>
         map_option track_bytes (var_value A t 2097152) =
           Some (track_bytes t @ [0x81, 0x80, 0x80, 0x00]) \<and>
         map_option track_bytes (var_value A t 268435455) =
           Some (track_bytes t @ [0xFF, 0xFF, 0xFF, 0x7F]) \<and>
         (\<forall>v < 2 ^ 28. map_option track_bytes (var_value A t v) =
            Some (track_bytes t @
              (if v \<ge> 2 ^ 21 then [word_of_int (0x80 OR (drop_bit 21 v AND 0x7f))] else []) @
              (if v \<ge> 2 ^ 14 then [word_of_int (0x80 OR (drop_bit 14 v AND 0x7f))] else []) @
              (if v \<ge> 2 ^ 7 then [word_of_int (0x80 OR (drop_bit 7 v AND 0x7f))] else []) @
              [word_of_int (v AND 0x7f)]))"
proof -
  have run: "map_option track_bytes (var_value A t v) = Some (track_bytes t @ vlq_bytes v)" for v
    using var_value_bytes [OF assms, of v] by auto
  have ladder: "vlq_bytes v =
      (if v \<ge> 2 ^ 21 then [word_of_int (0x80 OR (drop_bit 21 v AND 0x7f))] else []) @
      (if v \<ge> 2 ^ 14 then [word_of_int (0x80 OR (drop_bit 14 v AND 0x7f))] else []) @
      (if v \<ge> 2 ^ 7 then [word_of_int (0x80 OR (drop_bit 7 v AND 0x7f))] else []) @
      [word_of_int (v AND 0x7f)]" if "v < 2 ^ 28" for v
    using that by (simp add: vlq_bytes_def)
  show ?thesis
    unfolding run using ladder by (simp add: vlq_bytes_at)
qed

theorem var_value_boundaries_witness:
  "never_fails always_ok \<and> track_inv init_tracks \<and>
   map_option track_bytes (var_value always_ok init_tracks 0) = Some [0x00] \<and>
   map_option track_bytes (var_value always_ok init_tracks 16384) = Some [0x81, 0x80, 0x00] \<and>
   (300::int) < 2 ^ 28 \<and>
   map_option track_bytes (var_value always_ok init_tracks 300) = Some [0x82, 0x2C]"
proof -
  have lt: "(300::int) < 2 ^ 28"
    by simp
  note w = var_value_boundaries [OF never_fails_always_ok track_inv_init]
  from w have "map_option track_bytes (var_value always_ok init_tracks 300) =
      Some (track_bytes init_tracks @
         (if (300::int) \<ge> 2 ^ 21
          then [word_of_int (0x80 OR (drop_bit 21 300 AND 0x7f))] else []) @
         (if (300::int) \<ge> 2 ^ 14
          then [word_of_int (0x80 OR (drop_bit 14 300 AND 0x7f))] else []) @
         (if (300::int) \<ge> 2 ^ 7
          then [word_of_int (0x80 OR (drop_bit 7 300 AND 0x7f))] else []) @
         [word_of_int (300 AND 0x7f)])"
    using lt by blast
  then have "map_option track_bytes (var_value always_ok init_tracks 300) = Some [0x82, 0x2C]"
    by (simp add: track_bytes_init)
  with w lt show ?thesis
    by (simp add: track_bytes_init never_fails_always_ok track_inv_init)
qed

text \<open>
  Claim C6 says that the encoder emits between 1 and 4 bytes for every non-negative
  value. For \<open>2 ^ 28\<close> the first rung of \<open>var_value\<close> fires as well, and five bytes are
  appended.
\<close>

theorem var_value_five_bytes:
  "map_option (length \<circ> track_bytes) (var_value always_ok init_tracks 268435456) = Some 5"
  using var_value_bytes [OF never_fails_always_ok track_inv_init, of 268435456]
  by (auto simp: track_bytes_init vlq_bytes_at)

text \<open>
  Claim C6, amended. \<open>var_value\<close> appends between 1 and 5 bytes, and \<open>size\<close> grows by
  their count; the bytes are at most 4 exactly for the values below \<open>2 ^ 28\<close>.
\<close>

theorem var_value_byte_count:
  assumes "never_fails A" and "track_inv t"
  shows "\<exists>t'. var_value A t v = Some t' \<and>
           track_bytes t' = track_bytes t @ vlq_bytes v \<and>
           size_trk t' = size_trk t + int (length (vlq_bytes v)) \<and>
           1 \<le> length (vlq_bytes v) \<and> length (vlq_bytes v) \<le> 5 \<and>
           (length (vlq_bytes v) \<le> 4 \<longleftrightarrow> v < 2 ^ 28)"
proof -
  from var_value_bytes [OF assms, of v] obtain t' where
    ok: "var_value A t v = Some t'" and inv: "track_inv t'" and
    bs: "track_bytes t' = track_bytes t @ vlq_bytes v"
    by blast
  from track_inv_size [OF inv] track_inv_size [OF assms(2)] bs
  have "size_trk t' = size_trk t + int (length (vlq_bytes v))"
    by simp
  with ok bs vlq_bytes_length [of v] show ?thesis
    by auto
qed

theorem var_value_byte_count_witness:
  "never_fails always_ok \<and> track_inv init_tracks \<and>
   map_option track_bytes (var_value always_ok init_tracks 300) = Some [0x82, 0x2C] \<and>
   map_option size_trk (var_value always_ok init_tracks 300) = Some 2"
proof -
  have v: "vlq_bytes 300 = [0x82, 0x2C]"
    by (simp add: vlq_bytes_def)
  from var_value_byte_count [OF never_fails_always_ok track_inv_init, of 300] v
  show ?thesis
    by (auto simp: track_bytes_init never_fails_always_ok track_inv_init)
       (simp add: init_tracks_def)
qed

section \<open>The size of the buffered track\<close>

lemma int_sum_list_map: "int (sum_list (map f xs)) = sum_list (map (\<lambda>x. int (f x)) xs)"
  by (induction xs) simp_all

text \<open>
  Claim C8. The empty track is well formed with \<open>size\<close> 0. An append to a well-formed
  track leaves it well formed, adds the byte at the end of the buffered bytes and 1 to
  \<open>size\<close>; afterwards \<open>size\<close> is the sum of the bytes \<open>flush_buffer\<close> finds in the
  buffers, \<open>BUFFER_SIZE\<close> in every buffer before the current one and the fill level in
  the current one. An append fails only when a new buffer is needed and \<open>calloc\<close> fails.
  A track built from the empty one by a run of appends holds exactly the appended
  bytes, and \<open>size\<close> is their count.
\<close>

theorem add_byte_size_invariant:
  "track_inv init_tracks \<and> size_trk init_tracks = 0 \<and> track_bytes init_tracks = [] \<and>
   (track_inv t \<and> add_byte A t b = Some t' \<longrightarrow>
      track_inv t' \<and> size_trk t' = size_trk t + 1 \<and>
      track_bytes t' = track_bytes t @ [b] \<and>
      size_trk t' = int (length (track_bytes t')) \<and>
      size_trk t' =
        sum_list (map (\<lambda>buf. int (length (take BUFFER_SIZE buf))) (prev_bufs t')) +
        int (length (take (nat (cur_buf_size t')) (cur_buf t'))) \<and>
      list_all (\<lambda>buf. length (take BUFFER_SIZE buf) = BUFFER_SIZE) (prev_bufs t') \<and>
      length (take (nat (cur_buf_size t')) (cur_buf t')) = nat (cur_buf_size t')) \<and>
   (add_byte A t b = None \<longleftrightarrow>
      cur_buf_size t \<ge> int BUFFER_SIZE \<and> \<not> A (length (prev_bufs t))) \<and>
   (add_bytes A init_tracks bs = Some u \<longrightarrow>
      track_inv u \<and> track_bytes u = bs \<and> size_trk u = int (length bs))"
proof -
  have run: "track_inv u \<and> track_bytes u = bs \<and> size_trk u = int (length bs)"
    if ok: "add_bytes A init_tracks bs = Some u"
  proof -
    from add_bytes_holds [OF holds_init ok] have "track_inv u" and "track_bytes u = bs"
      by (simp_all add: holds_def)
    with track_inv_size [of u] show ?thesis
      by simp
  qed
  have step: "track_inv t' \<and> size_trk t' = size_trk t + 1 \<and>
      track_bytes t' = track_bytes t @ [b] \<and>
      size_trk t' = int (length (track_bytes t')) \<and>
      size_trk t' =
        sum_list (map (\<lambda>buf. int (length (take BUFFER_SIZE buf))) (prev_bufs t')) +
        int (length (take (nat (cur_buf_size t')) (cur_buf t'))) \<and>
      list_all (\<lambda>buf. length (take BUFFER_SIZE buf) = BUFFER_SIZE) (prev_bufs t') \<and>
      length (take (nat (cur_buf_size t')) (cur_buf t')) = nat (cur_buf_size t')"
    if inv: "track_inv t" and ok: "add_byte A t b = Some t'"
  proof -
    from add_byte_step [OF inv ok] have inv': "track_inv t'" and
      sz: "size_trk t' = size_trk t + 1" and bs: "track_bytes t' = track_bytes t @ [b]"
      by simp_all
    have full: "list_all (\<lambda>buf. length (take BUFFER_SIZE buf) = BUFFER_SIZE) (prev_bufs t')"
      using inv' by (simp add: track_inv_def list_all_iff)
    have cur: "length (take (nat (cur_buf_size t')) (cur_buf t')) = nat (cur_buf_size t')"
      using inv' by (auto simp: track_inv_def)
    have "length (track_bytes t') =
        sum_list (map (\<lambda>buf. length (take BUFFER_SIZE buf)) (prev_bufs t')) +
        length (take (nat (cur_buf_size t')) (cur_buf t'))"
      by (simp add: track_bytes_def length_concat comp_def)
    then have "int (length (track_bytes t')) =
        sum_list (map (\<lambda>buf. int (length (take BUFFER_SIZE buf))) (prev_bufs t')) +
        int (length (take (nat (cur_buf_size t')) (cur_buf t')))"
      by (simp only: of_nat_add int_sum_list_map)
    with track_inv_size [OF inv'] inv' sz bs full cur show ?thesis
      by simp
  qed
  have zero: "size_trk init_tracks = 0"
    by (simp add: init_tracks_def)
  from step run zero track_inv_init track_bytes_init add_byte_None [of A t b] show ?thesis
    by blast
qed

theorem add_byte_size_invariant_witness:
  "track_inv init_tracks \<and>
   map_option track_bytes (add_byte always_ok init_tracks 0x90) = Some [0x90] \<and>
   map_option size_trk (add_byte always_ok init_tracks 0x90) = Some 1"
proof -
  from add_byte_total [OF never_fails_always_ok, of init_tracks "0x90"]
  obtain t' where ok: "add_byte always_ok init_tracks 0x90 = Some t'"
    by blast
  with add_byte_size_invariant [of init_tracks always_ok "0x90" t'] show ?thesis
    by simp
qed

section \<open>Delta times\<close>

lemma delta_time_bytes:
  assumes "never_fails A" and "track_inv t"
  shows "\<exists>t'. delta_time A ts t ev = Some t' \<and> track_inv t' \<and>
           track_bytes t' = track_bytes t @ vlq_bytes (delta_diff ts (last_tick t) (time_tick ev)) \<and>
           last_tick t' = time_tick ev - ts \<and> last_command t' = last_command t"
proof -
  from delta_time_total [OF assms(1)] obtain t' where ok: "delta_time A ts t ev = Some t'"
    by blast
  from assms(2) have "holds t (track_bytes t) (last_tick t) (last_command t)"
    by (simp add: holds_def)
  from delta_time_holds [OF this ok] ok show ?thesis
    by (simp add: holds_def)
qed

lemma sint_diff:
  fixes a b :: u32
  assumes "- (2 ^ 31) \<le> uint a - uint b" and "uint a - uint b < 2 ^ 31"
  shows "sint (a - b) = uint a - uint b"
proof -
  have "sint (word_of_int (uint a - uint b) :: u32) = signed_take_bit 31 (uint a - uint b)"
    by (simp only: sint_sbintrunc') simp
  also have "(word_of_int (uint a - uint b) :: u32) = a - b"
    by (rule word_sub_wi [symmetric])
  finally have "sint (a - b) = signed_take_bit 31 (uint a - uint b)" .
  with signed_take_bit_int_eq_self [OF assms] show ?thesis
    by simp
qed

text \<open>
  Claim C4, amended. \<open>delta_time\<close> appends the quantity of
  \<open>max 0 d\<close>, where \<open>d\<close> is the 32-bit difference of the tick (relative to the origin)
  and \<open>last_tick\<close> read as a signed number; the delta is never negative, and \<open>last_tick\<close>
  becomes the tick whatever the difference was. When the difference of the two ticks
  as numbers fits the signed 32-bit range, the delta is \<open>max 0 (tick - last_tick)\<close>.
\<close>

theorem delta_time_clamped:
  assumes "never_fails A" and "track_inv t"
  shows "\<exists>t'. delta_time A ts t ev = Some t' \<and>
           track_bytes t' =
             track_bytes t @ vlq_bytes (delta_diff ts (last_tick t) (time_tick ev)) \<and>
           last_tick t' = time_tick ev - ts \<and>
           0 \<le> delta_diff ts (last_tick t) (time_tick ev) \<and>
           delta_diff ts (last_tick t) (time_tick ev) =
             max 0 (sint (time_tick ev - ts - last_tick t)) \<and>
           (- (2 ^ 31) \<le> uint (time_tick ev - ts) - uint (last_tick t) \<and>
            uint (time_tick ev - ts) - uint (last_tick t) < 2 ^ 31 \<longrightarrow>
              delta_diff ts (last_tick t) (time_tick ev) =
                max 0 (uint (time_tick ev - ts) - uint (last_tick t)))"
proof -
  have d: "delta_diff ts (last_tick t) (time_tick ev) =
      max 0 (sint (time_tick ev - ts - last_tick t))"
    by (simp add: delta_diff_def Let_def max_def)
  then have nonneg: "0 \<le> delta_diff ts (last_tick t) (time_tick ev)"
    by simp
  from d sint_diff [of "time_tick ev - ts" "last_tick t"]
  have exact: "- (2 ^ 31) \<le> uint (time_tick ev - ts) - uint (last_tick t) \<and>
       uint (time_tick ev - ts) - uint (last_tick t) < 2 ^ 31 \<longrightarrow>
       delta_diff ts (last_tick t) (time_tick ev) =
         max 0 (uint (time_tick ev - ts) - uint (last_tick t))"
    by simp
  from delta_time_bytes [OF assms, of ts ev] d nonneg exact show ?thesis
    by blast
qed

theorem delta_time_clamped_witness:
  "never_fails always_ok \<and> track_inv init_tracks \<and>
   map_option track_bytes
     (delta_time always_ok 0 init_tracks (note_event 384 (SND_SEQ_EVENT_NOTEON 0 60 100))) =
     Some [0x83, 0x00] \<and>
   map_option last_tick
     (delta_time always_ok 0 init_tracks (note_event 384 (SND_SEQ_EVENT_NOTEON 0 60 100))) =
     Some 384"
proof -
  have lt: "last_tick init_tracks = 0"
    by (simp add: init_tracks_def)
  have d: "delta_diff 0 0 384 = 384"
    by (simp add: delta_diff_def)
  have v: "vlq_bytes 384 = [0x83, 0x00]"
    by (simp add: vlq_bytes_def)
  from delta_time_clamped [OF never_fails_always_ok track_inv_init, of 0
      "note_event 384 (SND_SEQ_EVENT_NOTEON 0 60 100)"]
  show ?thesis
    by (auto simp: never_fails_always_ok track_inv_init track_bytes_init note_event_def lt d v)
qed

text \<open>
  Claim C4 says that the delta is \<open>max 0 (tick - last_tick)\<close> for every tick. For the
  tick \<open>2 ^ 31\<close> after the last tick 0 that number is \<open>2 ^ 31\<close>, and \<open>delta_time\<close>
  appends the delta 0: the difference is negative as an \<open>int\<close>.
\<close>

theorem delta_time_far_tick:
  "map_option track_bytes (delta_time always_ok 0 init_tracks far_event) = Some (vlq_bytes 0) \<and>
   max 0 (uint (time_tick far_event - 0) - uint (last_tick init_tracks)) = 2147483648"
proof -
  have lt: "last_tick init_tracks = 0"
    by (simp add: init_tracks_def)
  have d: "delta_diff 0 0 0x80000000 = 0"
    by (simp add: delta_diff_def)
  from delta_time_bytes [OF never_fails_always_ok track_inv_init, of 0 far_event]
  show ?thesis
    by (auto simp: track_bytes_init far_event_def note_event_def lt d)
qed

section \<open>Ignored events\<close>

text \<open>
  Claim C9. For an event of a type the \<open>switch\<close> does not know, and for a system
  exclusive event without payload, \<open>record_event\<close> returns, whatever the allocator
  does, and the track is the same afterwards: no byte is added, and \<open>size\<close>,
  \<open>last_tick\<close> and \<open>last_command\<close> keep their values.
\<close>

theorem ignored_events:
  assumes "data_ev ev = SND_SEQ_EVENT_OTHER \<or> data_ev ev = SND_SEQ_EVENT_SYSEX []"
  shows "\<exists>g'. record_event A K g ev = Some g' \<and> track g' = track g \<and>
           track_bytes (track g') = track_bytes (track g) \<and>
           size_trk (track g') = size_trk (track g) \<and>
           last_tick (track g') = last_tick (track g) \<and>
           last_command (track g') = last_command (track g)"
proof -
  from assms have "record_event_switch A K ts (track g) ev = Some (track g)" for ts
    by (auto simp: record_event_switch_def)
  then show ?thesis
    by (simp add: record_event_def Let_def)
qed

theorem ignored_events_witness:
  "data_ev other_event = SND_SEQ_EVENT_OTHER \<and>
   map_option track (record_event always_ok alsa_midi_ctl start_globals other_event) =
     Some (track start_globals) \<and>
   data_ev empty_sysex_event = SND_SEQ_EVENT_SYSEX [] \<and>
   map_option track (record_event always_ok alsa_midi_ctl start_globals empty_sysex_event) =
     Some (track start_globals)"
proof -
  have d: "data_ev other_event = SND_SEQ_EVENT_OTHER"
    "data_ev empty_sysex_event = SND_SEQ_EVENT_SYSEX []"
    by (simp_all add: other_event_def empty_sysex_event_def note_event_def)
  from ignored_events [of other_event always_ok alsa_midi_ctl start_globals]
    ignored_events [of empty_sysex_event always_ok alsa_midi_ctl start_globals] d
  show ?thesis
    by auto
qed

section \<open>Controller events of 14 bits\<close>

lemma low_param:
  fixes p :: u32
  assumes "p < 0x20"
  shows "p AND 0x7f = p"
proof -
  have "(0x20 :: u32) < 2 ^ 7"
    by simp
  with assms have "p < 2 ^ 7"
    by (rule less_trans)
  from less_mask_eq [OF this] show ?thesis
    by (simp add: mask_eq_decr_exp)
qed

lemma origin_data: "origin g (ev\<lparr>data_ev := d\<rparr>) = origin g ev"
  by (simp add: origin_def)

text \<open>
  Claim C7. For an accepted 14-bit controller event whose parameter is below \<open>0x20\<close>
  the translation appends two controller messages: the delta time of the event, the
  status \<open>0xB0 | channel\<close> unless it is the running status, the parameter and bits 7 to
  13 of the value; then the delta time 0, which \<open>delta_time\<close> computes at the same tick,
  the parameter plus \<open>0x20\<close> and the low 7 bits of the value.
\<close>

theorem control14_pair:
  assumes "never_fails A" and "track_inv (track g)" and "accepted (queue g) ev"
    and "data_ev ev = SND_SEQ_EVENT_CONTROL14 ch p v" and "p < 0x20"
  shows "map_option (track_bytes \<circ> track) (record_event A K g ev) =
           Some (track_bytes (track g) @
                 vlq_bytes (delta_diff (origin g ev) (last_tick (track g)) (time_tick ev)) @
                 (if 0xB0 OR (ch AND 0x0F) \<noteq> last_command (track g)
                  then [0xB0 OR (ch AND 0x0F)] else []) @
                 [ucast p, word_of_int (drop_bit 7 v AND 0x7F)] @
                 vlq_bytes 0 @
                 [ucast (p + 0x20), word_of_int (v AND 0x7F)]) \<and>
         vlq_bytes 0 = [0x00] \<and>
         delta_diff (origin g ev) (time_tick ev - origin g ev) (time_tick ev) = 0"
proof -
  from record_event_step [OF assms(1-3), of K] assms(4) low_param [OF assms(5)] assms(5)
  show ?thesis
    by (auto simp: ev_bytes_def MIDI_CMD_CONTROL_def)
qed

text \<open>
  Claim C10. For an accepted 14-bit controller event whose parameter, masked to 7
  bits, is \<open>0x20\<close> or more, the translation appends one controller message: the delta
  time, the status \<open>0xB0 | channel\<close> unless it is the running status, the masked
  parameter and bits 7 to 13 of the value. The low 7 bits of the value do not reach
  the track: a value with the same bits 7 to 13 gives the same bytes.
\<close>

theorem control14_single:
  assumes "never_fails A" and "track_inv (track g)" and "accepted (queue g) ev"
    and "data_ev ev = SND_SEQ_EVENT_CONTROL14 ch p v" and "p AND 0x7F \<ge> 0x20"
  shows "map_option (track_bytes \<circ> track) (record_event A K g ev) =
           Some (track_bytes (track g) @
                 vlq_bytes (delta_diff (origin g ev) (last_tick (track g)) (time_tick ev)) @
                 (if 0xB0 OR (ch AND 0x0F) \<noteq> last_command (track g)
                  then [0xB0 OR (ch AND 0x0F)] else []) @
                 [ucast (p AND 0x7F), word_of_int (drop_bit 7 v AND 0x7F)]) \<and>
         (\<forall>v'. drop_bit 7 v' AND 0x7F = drop_bit 7 v AND 0x7F \<longrightarrow>
            map_option (track_bytes \<circ> track)
              (record_event A K g (ev\<lparr>data_ev := SND_SEQ_EVENT_CONTROL14 ch p v'\<rparr>)) =
            map_option (track_bytes \<circ> track) (record_event A K g ev))"
proof -
  have one: "map_option (track_bytes \<circ> track) (record_event A K g e) =
           Some (track_bytes (track g) @
                 vlq_bytes (delta_diff (origin g e) (last_tick (track g)) (time_tick e)) @
                 (if 0xB0 OR (ch AND 0x0F) \<noteq> last_command (track g)
                  then [0xB0 OR (ch AND 0x0F)] else []) @
                 [ucast (p AND 0x7F), word_of_int (drop_bit 7 w AND 0x7F)])"
    if "accepted (queue g) e" and "data_ev e = SND_SEQ_EVENT_CONTROL14 ch p w" for e w
    using record_event_step [OF assms(1,2) that(1), of K] that(2) assms(5)
    by (auto simp: ev_bytes_def MIDI_CMD_CONTROL_def)
  have acc': "accepted (queue g) (ev\<lparr>data_ev := d\<rparr>)" for d
    using assms(3) by (simp add: accepted_def)
  have "map_option (track_bytes \<circ> track)
          (record_event A K g (ev\<lparr>data_ev := SND_SEQ_EVENT_CONTROL14 ch p v'\<rparr>)) =
        map_option (track_bytes \<circ> track) (record_event A K g ev)"
    if "drop_bit 7 v' AND 0x7F = drop_bit 7 v AND 0x7F" for v'
  proof -
    have d: "data_ev (ev\<lparr>data_ev := SND_SEQ_EVENT_CONTROL14 ch p v'\<rparr>) =
        SND_SEQ_EVENT_CONTROL14 ch p v'"
      by simp
    have tk: "time_tick (ev\<lparr>data_ev := SND_SEQ_EVENT_CONTROL14 ch p v'\<rparr>) = time_tick ev"
      by simp
    show ?thesis
      unfolding one [OF acc' d] one [OF assms(3,4)] origin_data tk that ..
  qed
  with one [OF assms(3,4)] show ?thesis
    by blast
qed

theorem control14_pair_witness:
  "never_fails always_ok \<and> track_inv (track start_globals) \<and>
   accepted (queue start_globals) control14_event \<and>
   data_ev control14_event = SND_SEQ_EVENT_CONTROL14 0 7 4660 \<and> (7 :: u32) < 0x20 \<and>
   map_option (track_bytes \<circ> track)
     (record_event always_ok alsa_midi_ctl start_globals control14_event) =
     Some [0x00, 0xB0, 0x07, 0x24, 0x00, 0x27, 0x34]"
proof -
  have h: "track_inv (track start_globals)" "accepted (queue start_globals) control14_event"
    "data_ev control14_event = SND_SEQ_EVENT_CONTROL14 0 7 4660" "(7 :: u32) < 0x20"
    by (simp_all add: track_inv_init control14_event_def)
  have d: "delta_diff 10 0 10 = 0"
    by (simp add: delta_diff_def)
  from control14_pair [OF never_fails_always_ok h, of alsa_midi_ctl] h
  show ?thesis
    by (simp add: never_fails_always_ok track_bytes_init d control14_event_def)
qed

theorem control14_single_witness:
  "never_fails always_ok \<and> track_inv (track start_globals) \<and>
   accepted (queue start_globals) control14_high_event \<and>
   data_ev control14_high_event = SND_SEQ_EVENT_CONTROL14 0 0x27 4660 \<and>
   (0x27 :: u32) AND 0x7F \<ge> 0x20 \<and>
   drop_bit 7 (4608 :: int) AND 0x7F = drop_bit 7 4660 AND 0x7F \<and>
   map_option (track_bytes \<circ> track)
     (record_event always_ok alsa_midi_ctl start_globals control14_high_event) =
     Some [0x00, 0xB0, 0x27, 0x24] \<and>
   map_option (track_bytes \<circ> track)
     (record_event always_ok alsa_midi_ctl start_globals
        (control14_high_event\<lparr>data_ev := SND_SEQ_EVENT_CONTROL14 0 0x27 4608\<rparr>)) =
     Some [0x00, 0xB0, 0x27, 0x24]"
proof -
  have h: "track_inv (track start_globals)"
    "accepted (queue start_globals) control14_high_event"
    "data_ev control14_high_event = SND_SEQ_EVENT_CONTROL14 0 0x27 4660"
    "(0x27 :: u32) AND 0x7F \<ge> 0x20"
    by (simp_all add: track_inv_init control14_high_event_def)
  have v: "drop_bit 7 (4608 :: int) AND 0x7F = drop_bit 7 4660 AND 0x7F"
    by simp
  have d: "delta_diff 10 0 10 = 0"
    by (simp add: delta_diff_def)
  note w = control14_single [OF never_fails_always_ok h, of alsa_midi_ctl]
  from w have a: "map_option (track_bytes \<circ> track)
     (record_event always_ok alsa_midi_ctl start_globals control14_high_event) =
     Some [0x00, 0xB0, 0x27, 0x24]"
    by (simp add: track_bytes_init d control14_high_event_def)
  from w v have "map_option (track_bytes \<circ> track)
     (record_event always_ok alsa_midi_ctl start_globals
        (control14_high_event\<lparr>data_ev := SND_SEQ_EVENT_CONTROL14 0 0x27 4608\<rparr>)) =
     map_option (track_bytes \<circ> track)
       (record_event always_ok alsa_midi_ctl start_globals control14_high_event)"
    by blast
  with a h v show ?thesis
    by (simp add: never_fails_always_ok)
qed

section \<open>Running status and the time origin\<close>

lemma ev_command_high: "ev_command d = Some c \<Longrightarrow> 0x80 \<le> c"
proof (cases d)
  case (SND_SEQ_EVENT_SYSEX ext)
  then show "ev_command d = Some c \<Longrightarrow> 0x80 \<le> c"
    by (cases ext) (auto split: if_splits)
qed (auto simp: MIDI_CMD_NOTE_OFF_def MIDI_CMD_NOTE_ON_def MIDI_CMD_NOTE_PRESSURE_def
       MIDI_CMD_CONTROL_def MIDI_CMD_PGM_CHANGE_def MIDI_CMD_CHANNEL_PRESSURE_def
       MIDI_CMD_BENDER_def intro: order_trans [OF _ le_word_or2])

lemma record_event_status:
  assumes tot: "never_fails A" and inv: "track_inv (track g)" and acc: "accepted (queue g) ev"
    and cmd: "ev_command (data_ev ev) = Some c"
  shows "\<exists>g'. record_event A K g ev = Some g' \<and> track_inv (track g') \<and>
           queue g' = queue g \<and>
           track_bytes (track g') =
             track_bytes (track g) @
             vlq_bytes (delta_diff (origin g ev) (last_tick (track g)) (time_tick ev)) @
             (if c \<noteq> last_command (track g) then [c] else []) @
             ev_data_bytes K (data_ev ev) \<and>
           last_command (track g') = (if c < 0xf0 then c else 0)"
  using record_event_step [OF tot inv acc, of K] cmd
  by (auto simp: ev_bytes_def ev_last_command_def)

text \<open>
  Claim C3. Four accepted events in a row: two channel messages with the same status
  byte \<open>c\<close>, an event whose status byte \<open>s\<close> is \<open>0xF0\<close> or more (a system exclusive
  message), and a third channel message with the status \<open>c\<close>. The first leaves
  \<open>last_command = c\<close>; the second appends its delta time and its data bytes without a
  status byte; the third appends \<open>s\<close> and leaves \<open>last_command = 0\<close>, which no status byte
  equals; so the fourth appends \<open>c\<close> again after its delta time. Every status byte from
  \<open>0xF0\<close> on that goes through \<open>command\<close> leaves \<open>last_command = 0\<close>.
\<close>

theorem running_status:
  assumes tot: "never_fails A" and inv: "track_inv (track g)"
    and acc: "accepted (queue g) e1" "accepted (queue g) e2" "accepted (queue g) ex"
      "accepted (queue g) e3"
    and voice: "ev_command (data_ev e1) = Some c" "ev_command (data_ev e2) = Some c"
      "ev_command (data_ev e3) = Some c" "c < 0xF0"
    and sys: "ev_command (data_ev ex) = Some s" "0xF0 \<le> s"
  shows "(\<exists>g1 g2 g3 g4.
           record_event A K g e1 = Some g1 \<and> record_event A K g1 e2 = Some g2 \<and>
           record_event A K g2 ex = Some g3 \<and> record_event A K g3 e3 = Some g4 \<and>
           track_bytes (track g1) =
             track_bytes (track g) @
             vlq_bytes (delta_diff (origin g e1) (last_tick (track g)) (time_tick e1)) @
             (if c \<noteq> last_command (track g) then [c] else []) @
             ev_data_bytes K (data_ev e1) \<and>
           last_command (track g1) = c \<and>
           track_bytes (track g2) =
             track_bytes (track g1) @
             vlq_bytes (delta_diff (origin g1 e2) (last_tick (track g1)) (time_tick e2)) @
             ev_data_bytes K (data_ev e2) \<and>
           last_command (track g2) = c \<and>
           track_bytes (track g3) =
             track_bytes (track g2) @
             vlq_bytes (delta_diff (origin g2 ex) (last_tick (track g2)) (time_tick ex)) @
             [s] @ ev_data_bytes K (data_ev ex) \<and>
           last_command (track g3) = 0 \<and>
           track_bytes (track g4) =
             track_bytes (track g3) @
             vlq_bytes (delta_diff (origin g3 e3) (last_tick (track g3)) (time_tick e3)) @
             [c] @ ev_data_bytes K (data_ev e3)) \<and>
         (\<forall>m t. 0xF0 \<le> m \<longrightarrow> (\<exists>t'. command A t m = Some t' \<and> last_command t' = 0))"
proof -
  have reset: "\<exists>t'. command A t m = Some t' \<and> last_command t' = 0" if "0xF0 \<le> m" for m t
  proof -
    from command_total [OF tot] obtain t' where ok: "command A t m = Some t'"
      by blast
    with that have "last_command t' = 0"
      by (auto simp: command_def bind_eq_Some_conv)
    with ok show ?thesis
      by blast
  qed
  from ev_command_high [OF voice(1)] have c0: "c \<noteq> 0"
    by auto
  from voice(4) sys(2) have sc: "s \<noteq> c" and s: "\<not> s < 0xF0"
    by auto
  from record_event_status [OF tot inv acc(1) voice(1), of K] voice(4) obtain g1 where
    r1: "record_event A K g e1 = Some g1" and i1: "track_inv (track g1)" and
    q1: "queue g1 = queue g" and
    b1: "track_bytes (track g1) =
           track_bytes (track g) @
           vlq_bytes (delta_diff (origin g e1) (last_tick (track g)) (time_tick e1)) @
           (if c \<noteq> last_command (track g) then [c] else []) @
           ev_data_bytes K (data_ev e1)" and
    l1: "last_command (track g1) = c"
    by auto
  from acc(2) q1 have a2: "accepted (queue g1) e2"
    by simp
  from record_event_status [OF tot i1 a2 voice(2), of K] voice(4) l1 obtain g2 where
    r2: "record_event A K g1 e2 = Some g2" and i2: "track_inv (track g2)" and
    q2: "queue g2 = queue g1" and
    b2: "track_bytes (track g2) =
           track_bytes (track g1) @
           vlq_bytes (delta_diff (origin g1 e2) (last_tick (track g1)) (time_tick e2)) @
           ev_data_bytes K (data_ev e2)" and
    l2: "last_command (track g2) = c"
    by auto
  from acc(3) q1 q2 have ax: "accepted (queue g2) ex"
    by simp
  from record_event_status [OF tot i2 ax sys(1), of K] s sc l2 obtain g3 where
    r3: "record_event A K g2 ex = Some g3" and i3: "track_inv (track g3)" and
    q3: "queue g3 = queue g2" and
    b3: "track_bytes (track g3) =
           track_bytes (track g2) @
           vlq_bytes (delta_diff (origin g2 ex) (last_tick (track g2)) (time_tick ex)) @
           [s] @ ev_data_bytes K (data_ev ex)" and
    l3: "last_command (track g3) = 0"
    by auto
  from acc(4) q1 q2 q3 have a3: "accepted (queue g3) e3"
    by simp
  from record_event_status [OF tot i3 a3 voice(3), of K] c0 l3 obtain g4 where
    r4: "record_event A K g3 e3 = Some g4" and
    b4: "track_bytes (track g4) =
           track_bytes (track g3) @
           vlq_bytes (delta_diff (origin g3 e3) (last_tick (track g3)) (time_tick e3)) @
           [c] @ ev_data_bytes K (data_ev e3)"
    by auto
  from r1 r2 r3 r4 b1 l1 b2 l2 b3 l3 b4 reset show ?thesis
    by blast
qed

theorem running_status_witness:
  "never_fails always_ok \<and> track_inv (track start_globals) \<and>
   accepted (queue start_globals) note_on_event \<and>
   accepted (queue start_globals) second_note_event \<and>
   accepted (queue start_globals) sysex_event \<and>
   accepted (queue start_globals) third_note_event \<and>
   ev_command (data_ev note_on_event) = Some 0x90 \<and>
   ev_command (data_ev second_note_event) = Some 0x90 \<and>
   ev_command (data_ev third_note_event) = Some 0x90 \<and> (0x90 :: u8) < 0xF0 \<and>
   ev_command (data_ev sysex_event) = Some 0xF0 \<and> (0xF0 :: u8) \<le> 0xF0 \<and>
   map_option (track_bytes \<circ> track)
     (record_events always_ok alsa_midi_ctl start_globals
        [note_on_event, second_note_event, sysex_event, third_note_event]) =
     Some [0x00, 0x90, 0x3C, 0x64, 0x64, 0x40, 0x5A,
           0x64, 0xF0, 0x03, 0xF0, 0x7E, 0xF7, 0x64, 0x90, 0x43, 0x50]"
proof -
  note tot = never_fails_always_ok
  have inv: "track_inv (track start_globals)"
    by (simp add: track_inv_init)
  have acc: "accepted (queue start_globals) note_on_event"
    "accepted (queue start_globals) second_note_event"
    "accepted (queue start_globals) sysex_event"
    "accepted (queue start_globals) third_note_event"
    by (simp_all add: note_on_event_def second_note_event_def sysex_event_def
        third_note_event_def)
  have voice: "ev_command (data_ev note_on_event) = Some 0x90"
    "ev_command (data_ev second_note_event) = Some 0x90"
    "ev_command (data_ev third_note_event) = Some 0x90" "(0x90 :: u8) < 0xF0"
    by (simp_all add: note_on_event_def second_note_event_def third_note_event_def
        MIDI_CMD_NOTE_ON_def)
  have sys: "ev_command (data_ev sysex_event) = Some 0xF0" "(0xF0 :: u8) \<le> 0xF0"
    by (simp_all add: sysex_event_def)
  from running_status [OF tot inv acc voice sys, of alsa_midi_ctl]
  obtain g1 g2 g3 g4 where
    r1: "record_event always_ok alsa_midi_ctl start_globals note_on_event = Some g1" and
    r2: "record_event always_ok alsa_midi_ctl g1 second_note_event = Some g2" and
    r3: "record_event always_ok alsa_midi_ctl g2 sysex_event = Some g3" and
    r4: "record_event always_ok alsa_midi_ctl g3 third_note_event = Some g4" and
    b1: "track_bytes (track g1) =
           track_bytes (track start_globals) @
           vlq_bytes (delta_diff (origin start_globals note_on_event)
             (last_tick (track start_globals)) (time_tick note_on_event)) @
           (if 0x90 \<noteq> last_command (track start_globals) then [0x90] else []) @
           ev_data_bytes alsa_midi_ctl (data_ev note_on_event)" and
    b2: "track_bytes (track g2) =
           track_bytes (track g1) @
           vlq_bytes (delta_diff (origin g1 second_note_event) (last_tick (track g1))
             (time_tick second_note_event)) @
           ev_data_bytes alsa_midi_ctl (data_ev second_note_event)" and
    b3: "track_bytes (track g3) =
           track_bytes (track g2) @
           vlq_bytes (delta_diff (origin g2 sysex_event) (last_tick (track g2))
             (time_tick sysex_event)) @
           [0xF0] @ ev_data_bytes alsa_midi_ctl (data_ev sysex_event)" and
    b4: "track_bytes (track g4) =
           track_bytes (track g3) @
           vlq_bytes (delta_diff (origin g3 third_note_event) (last_tick (track g3))
             (time_tick third_note_event)) @
           [0x90] @ ev_data_bytes alsa_midi_ctl (data_ev third_note_event)"
    by blast
  from record_event_step [OF tot inv acc(1), of alsa_midi_ctl] r1
  have i1: "track_inv (track g1)" and q1: "queue g1 = 1" and
    s1: "t_start g1 = 10" "last_tick (track g1) = 0"
    by (auto simp: note_on_event_def ev_last_tick_def MIDI_CMD_NOTE_ON_def)
  have a2: "accepted (queue g1) second_note_event"
    by (simp add: q1 second_note_event_def)
  from record_event_step [OF tot i1 a2, of alsa_midi_ctl] r2 s1 q1
  have i2: "track_inv (track g2)" and q2: "queue g2 = 1" and
    s2: "t_start g2 = 10" "last_tick (track g2) = 100"
    by (auto simp: second_note_event_def ev_last_tick_def origin_def MIDI_CMD_NOTE_ON_def)
  have a3: "accepted (queue g2) sysex_event"
    by (simp add: q2 sysex_event_def)
  from record_event_step [OF tot i2 a3, of alsa_midi_ctl] r3 s2 q2
  have s3: "t_start g3 = 10" "last_tick (track g3) = 200"
    by (auto simp: sysex_event_def ev_last_tick_def origin_def)
  from b1 have c1: "track_bytes (track g1) = [0x00, 0x90, 0x3C, 0x64]"
    by (simp add: track_bytes_init note_on_event_def)
  from b2 s1 have c2: "track_bytes (track g2) = track_bytes (track g1) @ [0x64, 0x40, 0x5A]"
    by (simp add: origin_def second_note_event_def)
  from b3 s2 have c3: "track_bytes (track g3) =
      track_bytes (track g2) @ [0x64, 0xF0, 0x03, 0xF0, 0x7E, 0xF7]"
    by (simp add: origin_def sysex_event_def)
  from b4 s3 have c4: "track_bytes (track g4) = track_bytes (track g3) @ [0x64, 0x90, 0x43, 0x50]"
    by (simp add: origin_def third_note_event_def)
  from r1 r2 r3 r4 c1 c2 c3 c4 have "map_option (track_bytes \<circ> track)
     (record_events always_ok alsa_midi_ctl start_globals
        [note_on_event, second_note_event, sysex_event, third_note_event]) =
     Some [0x00, 0x90, 0x3C, 0x64, 0x64, 0x40, 0x5A,
           0x64, 0xF0, 0x03, 0xF0, 0x7E, 0xF7, 0x64, 0x90, 0x43, 0x50]"
    by simp
  with tot inv acc voice sys show ?thesis
    by blast
qed

text \<open>
  The time origin. An event with a tick time stamp of the recorder's queue sets
  \<open>t_start\<close> to its tick when \<open>t_start\<close> is 0, also when it is for another port; no
  event changes a \<open>t_start\<close> that is not 0.
\<close>

lemma origin_captured:
  assumes "uint (queue_ev ev) = queue g" and "is_tick ev" and "t_start g = 0"
    and "record_event A K g ev = Some g'"
  shows "t_start g' = time_tick ev"
  using assms by (auto simp: record_event_def Let_def bind_eq_Some_conv split: if_splits)

lemma origin_kept:
  assumes "t_start g \<noteq> 0" and "record_event A K g ev = Some g'"
  shows "t_start g' = t_start g"
  using assms by (auto simp: record_event_def Let_def bind_eq_Some_conv split: if_splits)

text \<open>
  A note-on at tick 0 and a note-off at tick 384, recorded while \<open>t_start\<close> is 0: the
  second event moves the origin to its own tick.
\<close>

lemma two_events_run:
  assumes tot: "never_fails A" and h: "holds (track g) bs 0 0" and ts: "t_start g = 0"
    and q: "queue g = 1"
  shows "\<exists>g'. record_events A K g [zero_tick_event, note_off_event] = Some g' \<and>
           t_start g' = 384 \<and>
           track_bytes (track g') = bs @ [0x00, 0x90, 0x3C, 0x64, 0x00, 0x80, 0x3C, 0x00] \<and>
           last_tick (track g') = 0"
proof -
  from h have inv: "track_inv (track g)" and tb: "track_bytes (track g) = bs" and
    l0: "last_tick (track g) = 0" "last_command (track g) = 0"
    by (simp_all add: holds_def)
  have a1: "accepted (queue g) zero_tick_event"
    by (simp add: zero_tick_event_def q)
  have d0: "delta_diff 0 0 0 = 0" "delta_diff 384 0 384 = 0"
    by (simp_all add: delta_diff_def)
  have o1: "origin g (note_event 0 d) = 0" for d
    by (simp add: origin_def ts)
  from record_event_step [OF tot inv a1, of K] tb l0 obtain t1 where
    r1: "record_event A K g zero_tick_event = Some (g\<lparr>t_start := 0, track := t1\<rparr>)" and
    i1: "track_inv t1" and b1: "track_bytes t1 = bs @ [0x00, 0x90, 0x3C, 0x64]" and
    l1: "last_tick t1 = 0" "last_command t1 = 0x90"
    by (auto simp: zero_tick_event_def ev_bytes_def ev_last_tick_def
        ev_last_command_def MIDI_CMD_NOTE_ON_def d0 o1)
  let ?g1 = "g\<lparr>t_start := 0, track := t1\<rparr>"
  have i1': "track_inv (track ?g1)"
    using i1 by simp
  have a2: "accepted (queue ?g1) note_off_event"
    by (simp add: note_off_event_def q)
  have o2: "origin ?g1 (note_event 384 d) = 384" for d
    by (simp add: origin_def)
  from record_event_step [OF tot i1' a2, of K] b1 l1 obtain t2 where
    r2: "record_event A K ?g1 note_off_event = Some (?g1\<lparr>t_start := 384, track := t2\<rparr>)" and
    b2: "track_bytes t2 = bs @ [0x00, 0x90, 0x3C, 0x64, 0x00, 0x80, 0x3C, 0x00]" and
    l2: "last_tick t2 = 0"
    by (auto simp: o2 note_off_event_def ev_bytes_def ev_last_tick_def MIDI_CMD_NOTE_OFF_def d0)
  from r1 r2 b2 l2 show ?thesis
    by simp
qed

text \<open>
  Claim C5 at a first event with tick 0: a note-on at tick 0 and a note-off at tick
  384. \<open>record_event\<close> stores the origin in \<open>t_start\<close> and takes \<open>t_start = 0\<close> for "no
  origin yet", so the note-on leaves \<open>t_start = 0\<close>, the note-off is taken for the first
  event, its tick becomes the origin, and its delta time is 0 where the origin 0 of
  the first event gives 384 (the bytes \<open>0x83 0x00\<close>).
\<close>

theorem origin_after_zero_tick:
  "map_option t_start
     (record_events always_ok alsa_midi_ctl start_globals [zero_tick_event, note_off_event]) =
     Some 384 \<and>
   map_option (track_bytes \<circ> track)
     (record_events always_ok alsa_midi_ctl start_globals [zero_tick_event, note_off_event]) =
     Some [0x00, 0x90, 0x3C, 0x64, 0x00, 0x80, 0x3C, 0x00]"
proof -
  have h: "holds (track start_globals) [] 0 0"
    by (simp add: holds_init)
  from two_events_run [OF never_fails_always_ok h, of alsa_midi_ctl] show ?thesis
    by auto
qed

section \<open>The finished file\<close>

lemma put_byte_end:
  "at_end f \<Longrightarrow> contents (put_byte f b) = contents f @ [b] \<and> at_end (put_byte f b)"
  by (simp add: at_end_def put_byte_def)

lemma fwrite_end:
  "at_end f \<Longrightarrow> contents (fwrite f bs) = contents f @ bs \<and> at_end (fwrite f bs)"
  unfolding fwrite_def
proof (induction bs arbitrary: f)
  case Nil
  then show ?case by simp
next
  case (Cons b bs)
  from put_byte_end [OF Cons.prems, of b] Cons.IH [of "put_byte f b"] show ?case
    by simp
qed

lemma fputc_end:
  "at_end f \<Longrightarrow> contents (fputc f c) = contents f @ [word_of_int c] \<and> at_end (fputc f c)"
  by (simp add: fputc_def put_byte_end)

lemma var_value_direct_eq:
  "var_value_direct f v = (fwrite f (vlq_bytes v), int (length (vlq_bytes v)))"
  by (simp add: var_value_direct_def vlq_bytes_def fwrite_def fputc_def Let_def)

lemma flush_bufs_end:
  "at_end f \<Longrightarrow>
   contents (foldl (\<lambda>f buf. fwrite f (take n buf)) f bufs) =
     contents f @ concat (map (take n) bufs) \<and>
   at_end (foldl (\<lambda>f buf. fwrite f (take n buf)) f bufs)"
proof (induction bufs arbitrary: f)
  case Nil
  then show ?case by simp
next
  case (Cons b bufs)
  from fwrite_end [OF Cons.prems, of "take n b"] Cons.IH [of "fwrite f (take n b)"]
  show ?case
    by simp
qed

lemma flush_buffer_end:
  assumes "at_end (file_out g)"
  shows "contents (file_out (flush_buffer g)) = contents (file_out g) @ track_bytes (track g) \<and>
         at_end (file_out (flush_buffer g)) \<and> track (flush_buffer g) = track g \<and>
         size_offset (flush_buffer g) = size_offset g"
proof -
  let ?f = "foldl (\<lambda>f buf. fwrite f (take BUFFER_SIZE buf)) (file_out g) (prev_bufs (track g))"
  from flush_bufs_end [OF assms, of BUFFER_SIZE "prev_bufs (track g)"]
  have 1: "contents ?f = contents (file_out g) @ concat (map (take BUFFER_SIZE) (prev_bufs (track g)))"
    and 2: "at_end ?f"
    by simp_all
  from fwrite_end [OF 2, of "take (nat (cur_buf_size (track g))) (cur_buf (track g))"] 1
  show ?thesis
    by (simp add: flush_buffer_def Let_def track_bytes_def)
qed

lemma be_value_4:
  assumes "0 \<le> n" and "n < 2 ^ 32"
  shows "be_value [word_of_int (drop_bit 24 n AND 0xff), word_of_int (drop_bit 16 n AND 0xff),
           word_of_int (drop_bit 8 n AND 0xff), word_of_int (n AND 0xff)] = n"
proof -
  have m: "uint (word_of_int (k AND 0xff) :: u8) = k mod 256" for k :: int
  proof -
    have "k AND 0xff = take_bit 8 k"
      using take_bit_eq_mask [of 8 k] by (simp add: mask_eq_exp_minus_1)
    then show ?thesis
      by (simp add: uint_word_of_int take_bit_eq_mod)
  qed
  have d1: "drop_bit 8 n = n div 256" and d2: "drop_bit 16 n = n div 256 div 256"
    and d3: "drop_bit 24 n = n div 256 div 256 div 256"
    by (simp_all add: drop_bit_eq_div zdiv_zmult2_eq [symmetric])
  define y1 where "y1 = n div 256"
  define y2 where "y2 = y1 div 256"
  define y3 where "y3 = y2 div 256"
  define r0 where "r0 = n mod 256"
  define r1 where "r1 = y1 mod 256"
  define r2 where "r2 = y2 mod 256"
  have e: "n = 256 * y1 + r0" "y1 = 256 * y2 + r1" "y2 = 256 * y3 + r2"
    unfolding y1_def y2_def y3_def r0_def r1_def r2_def by simp_all
  from assms have "y3 < 256" "0 \<le> y3"
    unfolding y1_def y2_def y3_def by simp_all
  then have y3: "y3 mod 256 = y3"
    by simp
  have "be_value [word_of_int (drop_bit 24 n AND 0xff), word_of_int (drop_bit 16 n AND 0xff),
           word_of_int (drop_bit 8 n AND 0xff), word_of_int (n AND 0xff)] =
        ((y3 mod 256 * 256 + r2) * 256 + r1) * 256 + r0"
    unfolding d1 d2 d3 be_value_def y1_def y2_def y3_def r0_def r1_def r2_def
    by (simp add: m)
  also have "\<dots> = 256 * (256 * (256 * y3 + r2) + r1) + r0"
    unfolding y3 by (simp add: algebra_simps)
  also have "\<dots> = n"
    using e by simp
  finally show ?thesis .
qed

lemma put_byte_over:
  "pos f = length h \<Longrightarrow> contents f = h @ a # r \<Longrightarrow>
   contents (put_byte f b) = h @ b # r \<and> pos (put_byte f b) = length (h @ [b])"
  by (simp add: put_byte_def)

lemma at_end_simps:
  "at_end f \<Longrightarrow> contents (fputc f c) = contents f @ [word_of_int c]"
  "at_end f \<Longrightarrow> at_end (fputc f c)"
  "at_end f \<Longrightarrow> contents (fwrite f bs) = contents f @ bs"
  "at_end f \<Longrightarrow> at_end (fwrite f bs)"
  "at_end f \<Longrightarrow> ftell f = length (contents f)"
  by (simp_all add: fputc_end fwrite_end ftell_def) (simp add: at_end_def)

lemma write_header_effect:
  assumes "file_out g = \<lparr>contents = [], pos = 0\<rparr>"
  shows "length (contents (file_out (write_header g))) = 22 \<and>
         take 4 (contents (file_out (write_header g))) = [0x4D, 0x54, 0x68, 0x64] \<and>
         take 4 (drop 14 (contents (file_out (write_header g)))) = [0x4D, 0x54, 0x72, 0x6B] \<and>
         size_offset (write_header g) = 18 \<and> at_end (file_out (write_header g)) \<and>
         track (write_header g) = track g \<and> queue (write_header g) = queue g \<and>
         t_start (write_header g) = t_start g"
proof -
  from assms have e: "at_end (file_out g)" and c: "contents (file_out g) = []"
    by (simp_all add: at_end_def)
  show ?thesis
    by (simp add: write_header_def Let_def at_end_simps e c)
qed

lemma record_event_keeps:
  assumes ok: "record_event A K g ev = Some g'" and inv: "track_inv (track g)"
  shows "track_inv (track g') \<and> file_out g' = file_out g \<and> size_offset g' = size_offset g"
proof -
  from inv have h: "holds (track g) (track_bytes (track g)) (last_tick (track g))
      (last_command (track g))"
    by (simp add: holds_def)
  show ?thesis
  proof (cases "accepted (queue g) ev")
    case True
    from ok record_event_accepted [OF True, of A K] obtain t' where
      sw: "record_event_switch A K (origin g ev) (track g) ev = Some t'" and
      g': "g' = g\<lparr>t_start := origin g ev, track := t'\<rparr>"
      by auto
    from record_event_switch_holds [OF h sw] g' show ?thesis
      by (simp add: holds_def)
  next
    case False
    with ok inv show ?thesis
      by (auto simp: record_event_def accepted_def Let_def split: if_splits)
  qed
qed

lemma record_events_keeps:
  "record_events A K g evs = Some g' \<Longrightarrow> track_inv (track g) \<Longrightarrow>
   track_inv (track g') \<and> file_out g' = file_out g \<and> size_offset g' = size_offset g"
proof (induction evs arbitrary: g)
  case Nil
  then show ?case by simp
next
  case (Cons ev evs)
  from Cons.prems(1) obtain g1 where
    s1: "record_event A K g ev = Some g1" and s2: "record_events A K g1 evs = Some g'"
    by (auto simp: bind_eq_Some_conv)
  from record_event_keeps [OF s1 Cons.prems(2)] Cons.IH [OF s2] show ?case
    by simp
qed

lemma record_events_total: "never_fails A \<Longrightarrow> record_events A K g evs \<noteq> None"
proof (induction evs arbitrary: g)
  case Nil
  show ?case by simp
next
  case (Cons ev evs)
  have "Option.bind (record_event A K g ev) (\<lambda>g. record_events A K g evs) \<noteq> None"
    by (rule bind_not_None) (rule record_event_total [OF Cons.prems], rule Cons.IH [OF Cons.prems])
  then show ?case by simp
qed

lemma write_track_end_effect:
  assumes e: "at_end (file_out g)" and ok: "write_track_end g err qt = Some (g', n)"
  shows "contents (file_out g') =
           contents (file_out g) @ vlq_bytes (sint (qt - last_tick (track g))) @
           [0xFF, 0x2F, 0x00] \<and>
         n = int (length (vlq_bytes (sint (qt - last_tick (track g))))) + 3 \<and>
         at_end (file_out g') \<and> track g' = track g \<and> size_offset g' = size_offset g"
proof -
  from ok have err: "\<not> err < 0"
    by (auto simp: write_track_end_def split: if_splits)
  from ok err show ?thesis
    by (auto simp: write_track_end_def Let_def var_value_direct_eq at_end_simps e)
qed

lemma write_track_end_total: "0 \<le> err \<Longrightarrow> write_track_end g err qt \<noteq> None"
  by (simp add: write_track_end_def Let_def split_def)

lemma update_length_effect:
  assumes c: "contents (file_out g) = h @ l @ r" and h: "length h = size_offset g"
    and l: "length l = 4"
  shows "contents (file_out (update_length g n)) =
           h @ [word_of_int (drop_bit 24 (size_trk (track g) + n) AND 0xff),
                word_of_int (drop_bit 16 (size_trk (track g) + n) AND 0xff),
                word_of_int (drop_bit 8 (size_trk (track g) + n) AND 0xff),
                word_of_int ((size_trk (track g) + n) AND 0xff)] @ r \<and>
         pos (file_out (update_length g n)) = pos (file_out g) \<and>
         size_offset (update_length g n) = size_offset g \<and>
         size_trk (track (update_length g n)) = size_trk (track g) + n \<and>
         track_bytes (track (update_length g n)) = track_bytes (track g) \<and>
         last_tick (track (update_length g n)) = last_tick (track g)"
proof -
  from l obtain a0 a1 a2 a3 where l4: "l = [a0, a1, a2, a3]"
    by (auto simp: length_Suc_conv numeral_eq_Suc)
  let ?sz = "size_trk (track g) + n"
  let ?f0 = "fseek (file_out g) (size_offset g)"
  let ?f1 = "fputc ?f0 (drop_bit 24 ?sz AND 0xff)"
  let ?f2 = "fputc ?f1 (drop_bit 16 ?sz AND 0xff)"
  let ?f3 = "fputc ?f2 (drop_bit 8 ?sz AND 0xff)"
  let ?f4 = "fputc ?f3 (?sz AND 0xff)"
  have p0: "pos ?f0 = length h" and c0: "contents ?f0 = h @ a0 # a1 # a2 # a3 # r"
    using c h l4 by (simp_all add: fseek_def)
  from put_byte_over [OF p0 c0, of "word_of_int (drop_bit 24 ?sz AND 0xff)"]
  have p1: "pos ?f1 = length (h @ [word_of_int (drop_bit 24 ?sz AND 0xff)])" and
    c1: "contents ?f1 = (h @ [word_of_int (drop_bit 24 ?sz AND 0xff)]) @ a1 # a2 # a3 # r"
    by (simp_all add: fputc_def)
  from put_byte_over [OF p1 c1, of "word_of_int (drop_bit 16 ?sz AND 0xff)"]
  have p2: "pos ?f2 = length (h @ [word_of_int (drop_bit 24 ?sz AND 0xff),
        word_of_int (drop_bit 16 ?sz AND 0xff)])" and
    c2: "contents ?f2 = (h @ [word_of_int (drop_bit 24 ?sz AND 0xff),
        word_of_int (drop_bit 16 ?sz AND 0xff)]) @ a2 # a3 # r"
    by (simp_all add: fputc_def)
  from put_byte_over [OF p2 c2, of "word_of_int (drop_bit 8 ?sz AND 0xff)"]
  have p3: "pos ?f3 = length (h @ [word_of_int (drop_bit 24 ?sz AND 0xff),
        word_of_int (drop_bit 16 ?sz AND 0xff), word_of_int (drop_bit 8 ?sz AND 0xff)])" and
    c3: "contents ?f3 = (h @ [word_of_int (drop_bit 24 ?sz AND 0xff),
        word_of_int (drop_bit 16 ?sz AND 0xff), word_of_int (drop_bit 8 ?sz AND 0xff)]) @
        a3 # r"
    by (simp_all add: fputc_def)
  from put_byte_over [OF p3 c3, of "word_of_int (?sz AND 0xff)"]
  have c4: "contents ?f4 = h @ [word_of_int (drop_bit 24 ?sz AND 0xff),
        word_of_int (drop_bit 16 ?sz AND 0xff), word_of_int (drop_bit 8 ?sz AND 0xff),
        word_of_int (?sz AND 0xff)] @ r"
    by (simp add: fputc_def)
  have u: "update_length g n =
      g\<lparr>track := (track g)\<lparr>size_trk := ?sz\<rparr>, file_out := fseek ?f4 (ftell (file_out g))\<rparr>"
    by (simp add: update_length_def Let_def)
  from c4 show ?thesis
    unfolding u by (simp add: fseek_def ftell_def track_bytes_def)
qed

lemma record_tempo_holds:
  "holds (track g) bs lt lc \<Longrightarrow> record_tempo A g = Some g' \<Longrightarrow>
   holds (track g') (bs @ tempo_bytes g) lt lc \<and> queue g' = queue g \<and>
   t_start g' = t_start g \<and> ticks g' = ticks g \<and> smpte_timing g' = smpte_timing g \<and>
   frames g' = frames g"
  by (clarsimp simp: record_tempo_def Let_def bind_eq_Some_conv;
      (drule (1) step_holds)+; simp add: tempo_bytes_def)

lemma record_tempo_total: "never_fails A \<Longrightarrow> record_tempo A g \<noteq> None"
  unfolding record_tempo_def Let_def
  by (auto intro!: bind_SomeI step_SomeI)

lemma main_body_steps:
  assumes run: "main_body A K g fopen_ok evs err qt = Some g'"
  obtains g1 g3 g5 n where
    "(if smpte_timing g = 0 then record_tempo A (g\<lparr>track := init_tracks\<rparr>)
      else Some (g\<lparr>track := init_tracks\<rparr>)) = Some g1"
    "record_events A K (write_header (g1\<lparr>file_out := \<lparr>contents = [], pos = 0\<rparr>\<rparr>)) evs = Some g3"
    "write_track_end (flush_buffer g3) err qt = Some (g5, n)"
    "g' = update_length g5 n"
  using run
  by (auto simp: main_body_def bind_eq_Some_conv split: if_splits)

lemma main_body_effect:
  assumes run: "main_body A K g fopen_ok evs err qt = Some g'"
  obtains g1 g3 h where
    "(if smpte_timing g = 0 then record_tempo A (g\<lparr>track := init_tracks\<rparr>)
      else Some (g\<lparr>track := init_tracks\<rparr>)) = Some g1"
    "record_events A K (write_header (g1\<lparr>file_out := \<lparr>contents = [], pos = 0\<rparr>\<rparr>)) evs = Some g3"
    "track_bytes (track g') = track_bytes (track g3)"
    "last_tick (track g') = last_tick (track g3)"
    "contents (file_out g') =
       h @ [word_of_int (drop_bit 24 (size_trk (track g')) AND 0xff),
            word_of_int (drop_bit 16 (size_trk (track g')) AND 0xff),
            word_of_int (drop_bit 8 (size_trk (track g')) AND 0xff),
            word_of_int (size_trk (track g') AND 0xff)] @
       track_bytes (track g') @ vlq_bytes (sint (qt - last_tick (track g'))) @
       [0xFF, 0x2F, 0x00]"
    "h = take 18 (contents (file_out
        (write_header (g1\<lparr>file_out := \<lparr>contents = [], pos = 0\<rparr>\<rparr>))))"
    "length h = 18" "size_offset g' = 18"
    "size_trk (track g') =
       int (length (track_bytes (track g'))) +
       (int (length (vlq_bytes (sint (qt - last_tick (track g'))))) + 3)"
proof -
  from main_body_steps [OF run] obtain g1 g3 g5 n where
    s1: "(if smpte_timing g = 0 then record_tempo A (g\<lparr>track := init_tracks\<rparr>)
      else Some (g\<lparr>track := init_tracks\<rparr>)) = Some g1" and
    s3: "record_events A K (write_header (g1\<lparr>file_out := \<lparr>contents = [], pos = 0\<rparr>\<rparr>)) evs =
      Some g3" and
    s5: "write_track_end (flush_buffer g3) err qt = Some (g5, n)" and
    g': "g' = update_length g5 n"
    by blast
  let ?g2 = "write_header (g1\<lparr>file_out := \<lparr>contents = [], pos = 0\<rparr>\<rparr>)"
  have h0: "holds (track (g\<lparr>track := init_tracks\<rparr>)) [] 0 0"
    by (simp add: holds_init)
  from s1 have i1: "track_inv (track g1)"
  proof (cases "smpte_timing g = 0")
    case True
    with s1 record_tempo_holds [OF h0, of A g1] show ?thesis
      by (simp add: holds_def)
  next
    case False
    with s1 show ?thesis
      by (auto simp: track_inv_init)
  qed
  from write_header_effect [of "g1\<lparr>file_out := \<lparr>contents = [], pos = 0\<rparr>\<rparr>"]
  have len2: "length (contents (file_out ?g2)) = 22" and off2: "size_offset ?g2 = 18" and
    e2: "at_end (file_out ?g2)" and t2: "track ?g2 = track g1"
    by simp_all
  from record_events_keeps [OF s3] i1 t2
  have i3: "track_inv (track g3)" and f3: "file_out g3 = file_out ?g2" and
    off3: "size_offset g3 = 18"
    by (simp_all add: off2)
  from flush_buffer_end [of g3] e2 f3
  have c4: "contents (file_out (flush_buffer g3)) =
      contents (file_out ?g2) @ track_bytes (track g3)" and
    e4: "at_end (file_out (flush_buffer g3))" and t4: "track (flush_buffer g3) = track g3" and
    off4: "size_offset (flush_buffer g3) = 18"
    by (simp_all add: off3)
  let ?d = "sint (qt - last_tick (track g3))"
  from write_track_end_effect [OF e4 s5] c4 t4 off4
  have c5: "contents (file_out g5) =
      contents (file_out ?g2) @ track_bytes (track g3) @ vlq_bytes ?d @ [0xFF, 0x2F, 0x00]" and
    n: "n = int (length (vlq_bytes ?d)) + 3" and t5: "track g5 = track g3" and
    off5: "size_offset g5 = 18"
    by simp_all
  let ?h = "take 18 (contents (file_out ?g2))"
  let ?l = "drop 18 (contents (file_out ?g2))"
  from c5 have c5': "contents (file_out g5) =
      ?h @ ?l @ (track_bytes (track g3) @ vlq_bytes ?d @ [0xFF, 0x2F, 0x00])"
    by simp
  from len2 off5 have lh: "length ?h = size_offset g5" and ll: "length ?l = 4"
    by simp_all
  from update_length_effect [OF c5' lh ll, of n] g' t5 off5
  have c': "contents (file_out g') =
      ?h @ [word_of_int (drop_bit 24 (size_trk (track g3) + n) AND 0xff),
            word_of_int (drop_bit 16 (size_trk (track g3) + n) AND 0xff),
            word_of_int (drop_bit 8 (size_trk (track g3) + n) AND 0xff),
            word_of_int ((size_trk (track g3) + n) AND 0xff)] @
      (track_bytes (track g3) @ vlq_bytes ?d @ [0xFF, 0x2F, 0x00])" and
    off': "size_offset g' = 18" and sz': "size_trk (track g') = size_trk (track g3) + n" and
    tb': "track_bytes (track g') = track_bytes (track g3)" and
    lt': "last_tick (track g') = last_tick (track g3)"
    by simp_all
  from track_inv_size [OF i3] sz' n tb' lt'
  have size: "size_trk (track g') =
      int (length (track_bytes (track g'))) +
      (int (length (vlq_bytes (sint (qt - last_tick (track g'))))) + 3)"
    by simp
  from c' sz' tb' lt' have "contents (file_out g') =
      ?h @ [word_of_int (drop_bit 24 (size_trk (track g')) AND 0xff),
            word_of_int (drop_bit 16 (size_trk (track g')) AND 0xff),
            word_of_int (drop_bit 8 (size_trk (track g')) AND 0xff),
            word_of_int (size_trk (track g') AND 0xff)] @
      track_bytes (track g') @ vlq_bytes (sint (qt - last_tick (track g'))) @
      [0xFF, 0x2F, 0x00]"
    by simp
  moreover from len2 have "length ?h = 18"
    by simp
  ultimately show ?thesis
    using that [of g1 g3 ?h] s1 s3 tb' lt' off' size by blast
qed

text \<open>
  Claim C1. After every run of \<open>main\<close> that reaches its end, and whose \<open>track.size\<close>
  stays in the range of a C \<open>int\<close>, the file holds behind the four bytes at
  \<open>size_offset\<close> (offset 18) the buffered bytes of the track, then the final delta time
  written by \<open>write_track_end\<close>, then \<open>FF 2F 00\<close>, and nothing else; the four bytes at
  \<open>size_offset\<close>, read most significant byte first, are the count of the buffered bytes
  plus the count of the bytes of the epilogue (the final delta time and the three
  bytes of the end-of-track event), which is the count of all bytes behind the field.
\<close>

theorem track_length_field:
  assumes run: "main_body A K g fopen_ok evs err queue_tick = Some g'"
    and fits: "size_trk (track g') < 2 ^ 31"
  shows "size_offset g' = 18 \<and>
         drop (size_offset g' + 4) (contents (file_out g')) =
           track_bytes (track g') @
           vlq_bytes (sint (queue_tick - last_tick (track g'))) @ [0xFF, 0x2F, 0x00] \<and>
         length_field g' =
           int (length (track_bytes (track g'))) +
           (int (length (vlq_bytes (sint (queue_tick - last_tick (track g'))))) + 3) \<and>
         length_field g' =
           int (length (drop (size_offset g' + 4) (contents (file_out g')))) \<and>
         length_field g' = size_trk (track g')"
proof -
  let ?sz = "size_trk (track g')"
  let ?be = "[word_of_int (drop_bit 24 ?sz AND 0xff), word_of_int (drop_bit 16 ?sz AND 0xff),
              word_of_int (drop_bit 8 ?sz AND 0xff), word_of_int (?sz AND 0xff)] :: u8 list"
  let ?r = "track_bytes (track g') @
      vlq_bytes (sint (queue_tick - last_tick (track g'))) @ [0xFF, 0x2F, 0x00]"
  from main_body_effect [OF run] obtain h where
    c: "contents (file_out g') = h @ ?be @ ?r" and h: "length h = 18" and
    off: "size_offset g' = 18" and
    size: "?sz = int (length (track_bytes (track g'))) +
      (int (length (vlq_bytes (sint (queue_tick - last_tick (track g'))))) + 3)"
    by blast
  from size have nonneg: "0 \<le> ?sz"
    by simp
  from fits have "?sz < 2 ^ 32"
    by simp
  from be_value_4 [OF nonneg this] have be: "be_value ?be = ?sz" .
  from c h off have field: "take 4 (drop (size_offset g') (contents (file_out g'))) = ?be"
    by simp
  from c h off have rest: "drop (size_offset g' + 4) (contents (file_out g')) = ?r"
    by simp
  from field be have lf: "length_field g' = ?sz"
    by (simp only: length_field_def)
  from lf size rest off show ?thesis
    by simp
qed

lemma main_body_total:
  assumes "never_fails A" and "fopen_ok" and "0 \<le> err"
  shows "main_body A K g fopen_ok evs err qt \<noteq> None"
proof -
  note tempo = record_tempo_total [OF assms(1), unfolded not_None_eq]
  note evs = record_events_total [OF assms(1), unfolded not_None_eq]
  note fin = write_track_end_total [OF assms(3), unfolded not_None_eq]
  show ?thesis
    unfolding main_body_def using assms(2)
    by (auto intro!: bind_SomeI tempo evs fin)
qed

text \<open>
  The recording of a note-on at tick 0 and a note-off at tick 384 with the default
  options, ended when the queue is at tick 384: the whole file, with the length 28.
\<close>

theorem track_length_field_witness:
  "map_option (size_trk \<circ> track)
     (main_body always_ok alsa_midi_ctl start_globals True [zero_tick_event, note_off_event]
        0 384) = Some 28 \<and>
   (28 :: int) < 2 ^ 31 \<and>
   map_option length_field
     (main_body always_ok alsa_midi_ctl start_globals True [zero_tick_event, note_off_event]
        0 384) = Some 28 \<and>
   map_option (contents \<circ> file_out)
     (main_body always_ok alsa_midi_ctl start_globals True [zero_tick_event, note_off_event]
        0 384) =
     Some [0x4D, 0x54, 0x68, 0x64, 0x00, 0x00, 0x00, 0x06, 0x00, 0x00, 0x00, 0x01, 0x01, 0x80,
           0x4D, 0x54, 0x72, 0x6B, 0x00, 0x00, 0x00, 0x1C,
           0x00, 0xFF, 0x51, 0x03, 0x07, 0xA1, 0x20,
           0x00, 0xFF, 0x58, 0x04, 0x04, 0x02, 0x18, 0x08,
           0x00, 0x90, 0x3C, 0x64, 0x00, 0x80, 0x3C, 0x00,
           0x83, 0x00, 0xFF, 0x2F, 0x00]"
proof -
  note tot = never_fails_always_ok
  let ?run = "main_body always_ok alsa_midi_ctl start_globals True
      [zero_tick_event, note_off_event] 0 384"
  from main_body_total [OF tot, of True 0 alsa_midi_ctl start_globals
      "[zero_tick_event, note_off_event]" 384]
  obtain g' where run: "?run = Some g'"
    by auto
  from main_body_effect [OF run] obtain g1 g3 h where
    s1: "(if smpte_timing start_globals = 0
          then record_tempo always_ok (start_globals\<lparr>track := init_tracks\<rparr>)
          else Some (start_globals\<lparr>track := init_tracks\<rparr>)) = Some g1" and
    s3: "record_events always_ok alsa_midi_ctl
          (write_header (g1\<lparr>file_out := \<lparr>contents = [], pos = 0\<rparr>\<rparr>))
          [zero_tick_event, note_off_event] = Some g3" and
    tb: "track_bytes (track g') = track_bytes (track g3)" and
    lt: "last_tick (track g') = last_tick (track g3)" and
    h: "h = take 18 (contents (file_out
          (write_header (g1\<lparr>file_out := \<lparr>contents = [], pos = 0\<rparr>\<rparr>))))" and
    c: "contents (file_out g') =
       h @ [word_of_int (drop_bit 24 (size_trk (track g')) AND 0xff),
            word_of_int (drop_bit 16 (size_trk (track g')) AND 0xff),
            word_of_int (drop_bit 8 (size_trk (track g')) AND 0xff),
            word_of_int (size_trk (track g') AND 0xff)] @
       track_bytes (track g') @ vlq_bytes (sint (384 - last_tick (track g'))) @
       [0xFF, 0x2F, 0x00]" and
    size: "size_trk (track g') =
       int (length (track_bytes (track g'))) +
       (int (length (vlq_bytes (sint (384 - last_tick (track g'))))) + 3)"
    by blast
  let ?g0 = "start_globals\<lparr>track := init_tracks\<rparr>"
  let ?g2 = "write_header (g1\<lparr>file_out := \<lparr>contents = [], pos = 0\<rparr>\<rparr>)"
  have smpte: "smpte_timing start_globals = 0"
    by (simp add: start_globals_def)
  have h0: "holds (track ?g0) [] 0 0"
    by (simp add: holds_init)
  from s1 smpte record_tempo_holds [OF h0, of always_ok g1]
  have h1: "holds (track g1) (tempo_bytes ?g0) 0 0" and q1: "queue g1 = 1" and
    ts1: "t_start g1 = 0" and tk1: "ticks g1 = 384" and sm1: "smpte_timing g1 = 0"
    by (simp_all add: start_globals_def)
  have tempo: "tempo_bytes ?g0 =
      [0x00, 0xFF, 0x51, 0x03, 0x07, 0xA1, 0x20, 0x00, 0xFF, 0x58, 0x04, 0x04, 0x02, 0x18, 0x08]"
    by (simp add: tempo_bytes_def start_globals_def)
  from write_header_effect [of "g1\<lparr>file_out := \<lparr>contents = [], pos = 0\<rparr>\<rparr>"]
  have t2: "track ?g2 = track g1" and q2: "queue ?g2 = queue g1" and
    ts2: "t_start ?g2 = t_start g1"
    by simp_all
  from h1 t2 have h2: "holds (track ?g2) (tempo_bytes ?g0) 0 0"
    by simp
  from two_events_run [OF tot h2, of alsa_midi_ctl] s3 ts1 ts2 q1 q2
  have b3: "track_bytes (track g3) =
      tempo_bytes ?g0 @ [0x00, 0x90, 0x3C, 0x64, 0x00, 0x80, 0x3C, 0x00]" and
    l3: "last_tick (track g3) = 0"
    by auto
  have hd: "h = [0x4D, 0x54, 0x68, 0x64, 0x00, 0x00, 0x00, 0x06, 0x00, 0x00, 0x00, 0x01,
      0x01, 0x80, 0x4D, 0x54, 0x72, 0x6B]"
  proof -
    have e: "at_end \<lparr>contents = [], pos = 0\<rparr>"
      by (simp add: at_end_def)
    show ?thesis
      unfolding h by (simp add: write_header_def Let_def at_end_simps e tk1 sm1)
  qed
  from size tb lt b3 l3 have sz: "size_trk (track g') = 28"
    by (simp add: tempo vlq_bytes_384)
  then have fits: "size_trk (track g') < 2 ^ 31"
    by simp
  from track_length_field [OF run fits] sz have lf: "length_field g' = 28"
    by simp
  from c sz tb lt b3 l3 hd have bytes: "contents (file_out g') =
      [0x4D, 0x54, 0x68, 0x64, 0x00, 0x00, 0x00, 0x06, 0x00, 0x00, 0x00, 0x01, 0x01, 0x80,
       0x4D, 0x54, 0x72, 0x6B, 0x00, 0x00, 0x00, 0x1C,
       0x00, 0xFF, 0x51, 0x03, 0x07, 0xA1, 0x20,
       0x00, 0xFF, 0x58, 0x04, 0x04, 0x02, 0x18, 0x08,
       0x00, 0x90, 0x3C, 0x64, 0x00, 0x80, 0x3C, 0x00,
       0x83, 0x00, 0xFF, 0x2F, 0x00]"
    by (simp add: tempo vlq_bytes_384)
  from run sz lf bytes show ?thesis
    by simp
qed

end
